theory Spec2Isabelle
  imports Main "HOL-Library.Word"
begin

unbundle bit_operations_syntax

section \<open>The Cast V2 connection of go-chromecast\<close>

text \<open>
  A shallow embedding of the package \<open>cast\<close>: the connection (\<open>Start\<close>, \<open>connect\<close>,
  \<open>Send\<close>, \<open>SendAndWait\<close>, \<open>receiveLoop\<close>, \<open>handleMessage\<close>) and the payload header of
  \<open>cast/payload.go\<close>. The libraries the package calls (encoding/json, jsonparser, protobuf,
  crypto/tls) are not part of the repository: their functions are parameters of the model,
  collected in the record \<open>libs\<close>, and every theorem holds for each choice of them.
\<close>

subsection \<open>Values\<close>

type_synonym byte = "8 word"

text \<open>Go's \<open>error\<close> values: one made by a library, or one wrapped with a message by
  \<open>errors.Wrap\<close> and \<open>errors.Wrapf\<close> (the formatted arguments are left out).\<close>

datatype error = Error string | Wrap error string

text \<open>How a call ends: it returns, it panics (a nil pointer is dereferenced and the
  process ends), or it blocks for ever on a channel and never returns.\<close>

datatype 'a outcome = Done 'a | Panic | Blocked

text \<open>The generated type \<open>pb.CastMessage\<close>, as the connection uses it: every field is
  a pointer, \<open>None\<close> is nil.\<close>

datatype ProtocolVersion = CASTV2_1_0

datatype PayloadType = STRING | BINARY

record CastMessage =
  ProtocolVersion :: "ProtocolVersion option"
  SourceId :: "string option"
  DestinationId :: "string option"
  Namespace :: "string option"
  PayloadType :: "PayloadType option"
  PayloadUtf8 :: "string option"

text \<open>\<open>PayloadHeader\<close> of payload.go. Every implementation of the interface \<open>Payload\<close>
  embeds it, so a payload is any extension of this record, and \<open>SetRequestId\<close> is the
  update of the field.\<close>

record PayloadHeader =
  Type :: string
  RequestId :: int

definition SetRequestId :: "int \<Rightarrow> 'a PayloadHeader_scheme \<Rightarrow> 'a PayloadHeader_scheme" where
  "SetRequestId id' p = p\<lparr>RequestId := id'\<rparr>"

definition PongHeader_init :: PayloadHeader where
  "PongHeader_init = \<lparr>Type = ''PONG'', RequestId = 0\<rparr>"

text \<open>The library functions the connection calls. \<open>jsonparser_GetInt\<close> returns a value
  and an error, as in Go: \<open>handleMessage\<close> uses the value also when the error is set.\<close>

record libs =
  json_Marshal_PayloadHeader :: "PayloadHeader \<Rightarrow> error + string"
  json_Unmarshal_PayloadHeader :: "string \<Rightarrow> error + PayloadHeader"
  proto_Marshal :: "CastMessage \<Rightarrow> error + byte list"
  proto_Unmarshal :: "byte list \<Rightarrow> error + CastMessage"
  jsonparser_GetString :: "string \<Rightarrow> string \<Rightarrow> error + string"
  jsonparser_GetInt :: "string \<Rightarrow> string \<Rightarrow> int \<times> error option"

text \<open>\<open>proto.SetDefaults\<close> fills the unset fields that declare a default value. Send sets
  every field of the message it builds, so nothing is left to fill.\<close>

definition proto_SetDefaults :: "CastMessage \<Rightarrow> CastMessage" where
  "proto_SetDefaults m = m"

subsection \<open>Machine integers\<close>

text \<open>Go's \<open>int\<close> on a 64-bit platform: two's complement, \<open>+\<close> wraps around.\<close>

definition max_int :: int where
  "max_int = 2 ^ 63 - 1"

definition go_int :: "int \<Rightarrow> int" where
  "go_int x = (x + 2 ^ 63) mod 2 ^ 64 - 2 ^ 63"

text \<open>\<open>binary.Write(w, binary.BigEndian, uint32(n))\<close> and \<open>binary.Read\<close> of a uint32.\<close>

definition put_uint32 :: "32 word \<Rightarrow> byte list" where
  "put_uint32 w = [ucast (drop_bit 24 w), ucast (drop_bit 16 w), ucast (drop_bit 8 w), ucast w]"

definition get_uint32 :: "byte list \<Rightarrow> 32 word" where
  "get_uint32 bs = (case bs of
      [a, b, c, d] \<Rightarrow> push_bit 24 (ucast a) OR push_bit 16 (ucast b) OR push_bit 8 (ucast c) OR ucast d
    | _ \<Rightarrow> 0)"

subsection \<open>The socket\<close>

text \<open>
  The write side of the TLS connection: the bytes written so far, and how many more bytes
  the socket accepts before a write fails (\<open>None\<close>: it never fails). The read side is the
  sequence of what the reads will meet: a byte, or a failing read; at its end the socket is
  closed and every read fails.
\<close>

record tls_Conn =
  outbound :: "byte list"
  wbudget :: "nat option"

datatype rd = B byte | E

definition conn_Write :: "tls_Conn \<Rightarrow> byte list \<Rightarrow> tls_Conn \<times> error option" where
  "conn_Write k bs = (case wbudget k of
      None \<Rightarrow> (k\<lparr>outbound := outbound k @ bs\<rparr>, None)
    | Some n \<Rightarrow>
        if length bs \<le> n
        then (k\<lparr>outbound := outbound k @ bs, wbudget := Some (n - length bs)\<rparr>, None)
        else (k\<lparr>outbound := outbound k @ take n bs, wbudget := Some 0\<rparr>, Some (Error ''write'')))"

text \<open>\<open>io.ReadFull\<close>: reads until \<open>n\<close> bytes are there or a read fails. It returns the
  bytes read, the error, and what is left of the stream. Which error it is (EOF, unexpected
  EOF, a network error) is not kept apart: the callers only test it against nil.\<close>

fun ReadFull :: "nat \<Rightarrow> rd list \<Rightarrow> byte list \<times> error option \<times> rd list" where
  "ReadFull n [] = ([], if n = 0 then None else Some (Error ''EOF''), [])"
| "ReadFull n (E # xs) = (if n = 0 then ([], None, E # xs) else ([], Some (Error ''read''), xs))"
| "ReadFull n (B b # xs) =
     (if n = 0 then ([], None, B b # xs)
      else (case ReadFull (n - 1) xs of (bs, e, r) \<Rightarrow> (b # bs, e, r)))"

definition binary_Read_uint32 :: "rd list \<Rightarrow> 32 word \<times> error option \<times> rd list" where
  "binary_Read_uint32 inp = (case ReadFull 4 inp of
      (bs, None, r) \<Rightarrow> (get_uint32 bs, None, r)
    | (bs, Some e, r) \<Rightarrow> (0, Some e, r))"

subsection \<open>The state\<close>

text \<open>
  The package's global variables (\<open>requestID\<close>, \<open>PongHeader\<close>), the fields of the one
  \<open>Connection\<close> (\<open>conn\<close>, \<open>resultChanMap\<close>, \<open>debug\<close>, \<open>connected\<close>), the channels made
  so far (a channel is a number; \<open>chans\<close> gives what is in its buffer, of capacity 1), and
  the lines the logger has printed. \<open>issued\<close> is a history: the ids that line 108 has passed
  to \<open>SetRequestId\<close>, in order. The program does not read it.
\<close>

record state =
  requestID :: int
  PongHeader :: PayloadHeader
  conn :: "tls_Conn option"
  resultChanMap :: "int \<rightharpoonup> nat"
  debug :: bool
  connected :: bool
  chans :: "nat \<Rightarrow> CastMessage list"
  next_chan :: nat
  logs :: "string list"
  issued :: "int list"

text \<open>The state when the program starts and \<open>NewConnection(debug)\<close> has returned.\<close>

definition NewConnection :: "bool \<Rightarrow> state" where
  "NewConnection dbg = \<lparr>requestID = 0, PongHeader = PongHeader_init, conn = None,
     resultChanMap = Map.empty, debug = dbg, connected = False,
     chans = (\<lambda>_. []), next_chan = 0, logs = [], issued = []\<rparr>"

definition SetDebug :: "bool \<Rightarrow> state \<Rightarrow> state" where
  "SetDebug dbg s = s\<lparr>debug := dbg\<rparr>"

text \<open>\<open>c.log\<close>: prints when \<open>debug\<close> is set. The line is kept as its format string.\<close>

definition log :: "string \<Rightarrow> state \<Rightarrow> state" where
  "log message s = (if debug s then s\<lparr>logs := logs s @ [message]\<rparr> else s)"

subsection \<open>Start and connect\<close>

text \<open>\<open>dial\<close> is what \<open>tls.DialWithDialer\<close> returns: an error (and a nil connection),
  or the connection.\<close>

definition connect :: "error + tls_Conn \<Rightarrow> state \<Rightarrow> state \<times> error option" where
  "connect dial s = (case dial of
      Inl err \<Rightarrow> (s\<lparr>conn := None\<rparr>, Some (Wrap err ''unable to connect to chromecast''))
    | Inr k \<Rightarrow> (s\<lparr>conn := Some k, connected := True\<rparr>, None))"

text \<open>\<open>Start\<close> returns the state, the error, and how many \<open>receiveLoop\<close> goroutines its
  deferred function has started.\<close>

definition Start :: "error + tls_Conn \<Rightarrow> state \<Rightarrow> state \<times> error option \<times> nat" where
  "Start dial s =
     (if \<not> connected s
      then (case connect dial s of (s', err) \<Rightarrow> (s', err, 1))
      else (s, None, 0))"

subsection \<open>Send\<close>

text \<open>\<open>jm\<close> is \<open>json.Marshal\<close> at the type of the payload. Send returns the state, the
  payload (it is passed by reference, line 108 writes its id) and the error.\<close>

definition Send :: "('a PayloadHeader_scheme \<Rightarrow> error + string) \<Rightarrow> libs \<Rightarrow> 'a PayloadHeader_scheme \<Rightarrow>
    string \<Rightarrow> string \<Rightarrow> string \<Rightarrow> state \<Rightarrow> (state \<times> 'a PayloadHeader_scheme \<times> error option) outcome" where
  "Send jm L payload sourceID destinationID namespace s =
     (let s1 = s\<lparr>requestID := go_int (requestID s + 1)\<rparr>;
          payload' = SetRequestId (requestID s1) payload;
          s2 = s1\<lparr>issued := issued s1 @ [requestID s1]\<rparr>
      in case jm payload' of
           Inl err \<Rightarrow> Done (s2, payload', Some (Wrap err ''unable to marshal json payload''))
         | Inr payloadJson \<Rightarrow>
             (let message = \<lparr>ProtocolVersion = Some CASTV2_1_0, SourceId = Some sourceID,
                    DestinationId = Some destinationID, Namespace = Some namespace,
                    PayloadType = Some STRING, PayloadUtf8 = Some payloadJson\<rparr>
              in case proto_Marshal L (proto_SetDefaults message) of
                   Inl err \<Rightarrow> Done (s2, payload', Some (Wrap err ''unable to marshal proto payload''))
                 | Inr data \<Rightarrow>
                     (let s3 = log ''%s -> %s [%s]: %s'' s2
                      in case conn s3 of
                           None \<Rightarrow> Panic
                         | Some k \<Rightarrow>
                             (case conn_Write k (put_uint32 (of_nat (length data))) of
                                (k1, Some err) \<Rightarrow>
                                  Done (s3\<lparr>conn := Some k1\<rparr>, payload', Some (Wrap err ''unable to write binary format''))
                              | (k1, None) \<Rightarrow>
                                  (case conn_Write k1 data of
                                     (k2, Some err) \<Rightarrow>
                                       Done (s3\<lparr>conn := Some k2\<rparr>, payload', Some (Wrap err ''unable to send data''))
                                   | (k2, None) \<Rightarrow> Done (s3\<lparr>conn := Some k2\<rparr>, payload', None))))))"

subsection \<open>The receive loop\<close>

text \<open>\<open>resultChan <- message\<close> on a channel of capacity 1: it blocks while the buffer is full.\<close>

definition chan_send :: "nat \<Rightarrow> CastMessage \<Rightarrow> state \<Rightarrow> state outcome" where
  "chan_send ch message s =
     (if length (chans s ch) < 1
      then Done (s\<lparr>chans := (chans s)(ch := chans s ch @ [message])\<rparr>)
      else Blocked)"

text \<open>\<open>handleMessage\<close>. Each \<open>*message.F\<close> dereferences a pointer and panics on nil. The
  PONG is sent with \<open>&PongHeader\<close>, so Send's write of the id lands in the global variable.
  The parameter \<open>headers\<close> is not used by the body, as in the source.\<close>

definition handleMessage :: "libs \<Rightarrow> CastMessage \<Rightarrow> PayloadHeader \<Rightarrow> state \<Rightarrow> state outcome" where
  "handleMessage L message headers s =
     (case PayloadUtf8 message of
        None \<Rightarrow> Panic
      | Some payloadUtf8 \<Rightarrow>
          (case jsonparser_GetString L payloadUtf8 ''type'' of
             Inl err \<Rightarrow> Done (log ''could not find type key in response message %q: %s'' s)
           | Inr messageType \<Rightarrow>
               if messageType = ''PING''
               then (case (SourceId message, DestinationId message, Namespace message) of
                       (Some src, Some dst, Some ns) \<Rightarrow>
                         (case Send (json_Marshal_PayloadHeader L) L (PongHeader s) src dst ns s of
                            Done (s', pong, err) \<Rightarrow>
                              (let s'' = s'\<lparr>PongHeader := pong\<rparr>
                               in Done (case err of
                                          None \<Rightarrow> s''
                                        | Some e \<Rightarrow> log ''unable to respond to PING: %v'' s''))
                          | Panic \<Rightarrow> Panic
                          | Blocked \<Rightarrow> Blocked)
                     | _ \<Rightarrow> Panic)
               else (case jsonparser_GetInt L payloadUtf8 ''requestId'' of
                       (requestID', err) \<Rightarrow>
                         (let s1 = (case err of
                                      None \<Rightarrow> s
                                    | Some e \<Rightarrow> log ''unable to find requestId in proto payload %s: %v'' s)
                          in case resultChanMap s1 (go_int requestID') of
                               Some resultChan \<Rightarrow> chan_send resultChan message s1
                             | None \<Rightarrow> Done s1))))"

text \<open>One pass through the body of the \<open>for\<close> loop of \<open>receiveLoop\<close>, on the stream \<open>inp\<close>
  that the socket will deliver: the loop goes on with the rest of the stream (\<open>continue\<close>,
  or the end of the body), or it ends (\<open>break\<close>). The arguments of the log call of line 171
  are evaluated whether or not \<open>debug\<close> is set, and dereference four pointers.\<close>

datatype iteration = Continue "rd list" state | Break state | Panics | Blocks

definition receiveLoop_body :: "libs \<Rightarrow> rd list \<Rightarrow> state \<Rightarrow> iteration" where
  "receiveLoop_body L inp s =
     (case conn s of
        None \<Rightarrow> Panics
      | Some k \<Rightarrow>
          (case binary_Read_uint32 inp of
             (length', Some err, rest) \<Rightarrow> Break (log ''failed to binary read payload: %v'' s)
           | (length', None, rest) \<Rightarrow>
               if length' = 0 then Continue rest (log ''empty payload received'' s)
               else (case ReadFull (unat length') rest of
                       (payload, Some err, rest') \<Rightarrow> Continue rest' (log ''failed to read payload: %v'' s)
                     | (payload, None, rest') \<Rightarrow>
                         if length payload \<noteq> unat length'
                         then Continue rest' (log ''invalid payload, wanted: %d but read: %d'' s)
                         else (case proto_Unmarshal L payload of
                                 Inl err \<Rightarrow>
                                   Continue rest' (log ''failed to unmarshal proto cast message %s: %v'' s)
                               | Inr message \<Rightarrow>
                                   (case (DestinationId message, SourceId message,
                                          Namespace message, PayloadUtf8 message) of
                                      (Some dst, Some src, Some ns, Some payloadUtf8) \<Rightarrow>
                                        (let s1 = log ''%s <- %s [%s]: %s'' s
                                         in case json_Unmarshal_PayloadHeader L payloadUtf8 of
                                              Inl err \<Rightarrow>
                                                Continue rest' (log ''failed to unmarshal proto message header: %v'' s1)
                                            | Inr headers \<Rightarrow>
                                                (case handleMessage L message headers s1 of
                                                   Done s2 \<Rightarrow> Continue rest' s2
                                                 | Panic \<Rightarrow> Panics
                                                 | Blocked \<Rightarrow> Blocks))
                                    | _ \<Rightarrow> Panics)))))"

lemma ReadFull_rest_le: "ReadFull n xs = (bs, e, r) \<Longrightarrow> length r \<le> length xs"
proof (induction n xs arbitrary: bs e r rule: ReadFull.induct)
  case (3 n b xs)
  then show ?case
    by (cases "n = 0"; cases "ReadFull (n - 1) xs") (auto split: if_splits)
qed (auto split: if_splits)

lemma ReadFull_rest_less: "0 < n \<Longrightarrow> ReadFull n xs = (bs, None, r) \<Longrightarrow> length r < length xs"
proof (cases xs)
  case (Cons x xs')
  assume n: "0 < n" and rf: "ReadFull n xs = (bs, None, r)"
  show ?thesis
  proof (cases x)
    case (B b)
    obtain bs' e' r' where sub: "ReadFull (n - 1) xs' = (bs', e', r')"
      by (cases "ReadFull (n - 1) xs'") auto
    with rf n Cons B have "r = r'" by auto
    with ReadFull_rest_le [OF sub] Cons show ?thesis by simp
  next
    case E
    with rf n Cons show ?thesis by auto
  qed
qed auto

lemma binary_Read_uint32_rest_less:
  "binary_Read_uint32 inp = (w, None, r) \<Longrightarrow> length r < length inp"
  by (cases "ReadFull 4 inp") (auto simp: binary_Read_uint32_def split: option.splits
      dest: ReadFull_rest_less [rotated])

lemma receiveLoop_body_Continue:
  assumes "receiveLoop_body L inp s = Continue inp' s'"
  shows "length inp' < length inp"
proof -
  obtain w e r where rd: "binary_Read_uint32 inp = (w, e, r)"
    by (cases "binary_Read_uint32 inp") auto
  show ?thesis
  proof (cases e)
    case (Some err)
    with assms rd show ?thesis
      by (auto simp: receiveLoop_body_def split: option.splits)
  next
    case None
    with rd have less: "length r < length inp"
      by (auto dest: binary_Read_uint32_rest_less)
    obtain bs e2 r2 where rf: "ReadFull (unat w) r = (bs, e2, r2)"
      by (cases "ReadFull (unat w) r") auto
    from ReadFull_rest_le [OF rf] less have "length r2 < length inp" by simp
    with assms rd None rf less show ?thesis
      by (auto simp: receiveLoop_body_def Let_def
          split: option.splits if_splits sum.splits outcome.splits)
  qed
qed

text \<open>\<open>receiveLoop\<close>: the body, again and again, until it breaks. Every pass that goes on
  has taken something from the stream, so the loop ends on every stream.\<close>

function receiveLoop :: "libs \<Rightarrow> rd list \<Rightarrow> state \<Rightarrow> state outcome" where
  "receiveLoop L inp s =
     (case receiveLoop_body L inp s of
        Continue inp' s' \<Rightarrow> receiveLoop L inp' s'
      | Break s' \<Rightarrow> Done s'
      | Panics \<Rightarrow> Panic
      | Blocks \<Rightarrow> Blocked)"
  by pat_completeness auto
termination
  by (relation "measure (\<lambda>(L, inp, s). length inp)") (auto dest: receiveLoop_body_Continue)

declare receiveLoop.simps [simp del]

subsection \<open>SendAndWait\<close>

text \<open>
  \<open>SendAndWait\<close> blocks in its \<open>select\<close> until another goroutine acts, so its model says
  what the others do meanwhile. An event is one such action: the receive loop hands a
  decoded frame to \<open>handleMessage\<close>, the context is cancelled (or its deadline passes), or
  another caller runs \<open>Send\<close>. Each event is taken as one step.
\<close>

record Context =
  ctx_Done :: bool
  ctx_Err :: error

datatype 'a event =
    Inbound CastMessage PayloadHeader
  | Cancel
  | OtherSend "'a PayloadHeader_scheme" string string string

fun run_event :: "('a PayloadHeader_scheme \<Rightarrow> error + string) \<Rightarrow> libs \<Rightarrow> 'a event \<Rightarrow>
    Context \<Rightarrow> state \<Rightarrow> (Context \<times> state) outcome" where
  "run_event jm L (Inbound message headers) ctx s =
     (case handleMessage L message headers s of
        Done s' \<Rightarrow> Done (ctx, s')
      | Panic \<Rightarrow> Panic
      | Blocked \<Rightarrow> Blocked)"
| "run_event jm L Cancel ctx s = Done (ctx\<lparr>ctx_Done := True\<rparr>, s)"
| "run_event jm L (OtherSend payload sourceID destinationID namespace) ctx s =
     (case Send jm L payload sourceID destinationID namespace s of
        Done (s', payload', err) \<Rightarrow> Done (ctx, s')
      | Panic \<Rightarrow> Panic
      | Blocked \<Rightarrow> Blocked)"

fun run_events :: "('a PayloadHeader_scheme \<Rightarrow> error + string) \<Rightarrow> libs \<Rightarrow> 'a event list \<Rightarrow>
    Context \<Rightarrow> state \<Rightarrow> (Context \<times> state) outcome" where
  "run_events jm L [] ctx s = Done (ctx, s)"
| "run_events jm L (ev # evs) ctx s =
     (case run_event jm L ev ctx s of
        Done (ctx', s') \<Rightarrow> run_events jm L evs ctx' s'
      | Panic \<Rightarrow> Panic
      | Blocked \<Rightarrow> Blocked)"

text \<open>Lines 90 and 91: a new channel, stored under the value the global \<open>requestID\<close> has
  at that moment.\<close>

definition register_slot :: "state \<Rightarrow> nat \<times> state" where
  "register_slot s =
     (let resultChan = next_chan s;
          s1 = s\<lparr>chans := (chans s)(resultChan := []), next_chan := Suc (next_chan s)\<rparr>
      in (resultChan, s1\<lparr>resultChanMap := (resultChanMap s1)(requestID s1 \<mapsto> resultChan)\<rparr>))"

text \<open>The deferred function of lines 92 to 94. It reads the global \<open>requestID\<close> when it
  runs, at the return.\<close>

definition deferred_delete :: "state \<Rightarrow> state" where
  "deferred_delete s = s\<lparr>resultChanMap := (resultChanMap s)(requestID s := None)\<rparr>"

text \<open>The \<open>select\<close> of lines 96 to 101. When both cases are ready Go picks one at random:
  \<open>pick\<close> says whether it is the context's. \<open>None\<close>: no case is ready.\<close>

definition select :: "bool \<Rightarrow> nat \<Rightarrow> Context \<Rightarrow> state \<Rightarrow> ((error + CastMessage) \<times> state) option" where
  "select pick resultChan ctx s =
     (case chans s resultChan of
        [] \<Rightarrow> if ctx_Done ctx then Some (Inl (ctx_Err ctx), s) else None
      | result # buf \<Rightarrow>
          if ctx_Done ctx \<and> pick then Some (Inl (ctx_Err ctx), s)
          else Some (Inr result, s\<lparr>chans := (chans s)(resultChan := buf)\<rparr>))"

text \<open>The wait: when a case of the \<open>select\<close> is ready the call returns through the deferred
  function; otherwise the next event happens. When no event is left and no case is ready,
  the call never returns.\<close>

fun wait :: "('a PayloadHeader_scheme \<Rightarrow> error + string) \<Rightarrow> libs \<Rightarrow> bool \<Rightarrow> nat \<Rightarrow> 'a event list \<Rightarrow>
    Context \<Rightarrow> state \<Rightarrow> ((error + CastMessage) \<times> state) outcome" where
  "wait jm L pick resultChan [] ctx s =
     (case select pick resultChan ctx s of
        Some (res, s') \<Rightarrow> Done (res, deferred_delete s')
      | None \<Rightarrow> Blocked)"
| "wait jm L pick resultChan (ev # evs) ctx s =
     (case select pick resultChan ctx s of
        Some (res, s') \<Rightarrow> Done (res, deferred_delete s')
      | None \<Rightarrow>
          (case run_event jm L ev ctx s of
             Done (ctx', s') \<Rightarrow> wait jm L pick resultChan evs ctx' s'
           | Panic \<Rightarrow> Panic
           | Blocked \<Rightarrow> Blocked))"

text \<open>\<open>SendAndWait\<close>. \<open>before\<close> are the events between the return of \<open>Send\<close> (line 84) and
  the registration (line 91), \<open>during\<close> those while the call waits. It returns the result
  (an error, or the envelope), the payload and the state.\<close>

definition SendAndWait :: "('a PayloadHeader_scheme \<Rightarrow> error + string) \<Rightarrow> libs \<Rightarrow> Context \<Rightarrow>
    'a PayloadHeader_scheme \<Rightarrow> string \<Rightarrow> string \<Rightarrow> string \<Rightarrow>
    'a event list \<Rightarrow> 'a event list \<Rightarrow> bool \<Rightarrow> state \<Rightarrow>
    ((error + CastMessage) \<times> 'a PayloadHeader_scheme \<times> state) outcome" where
  "SendAndWait jm L ctx payload sourceID destinationID namespace before during pick s =
     (case Send jm L payload sourceID destinationID namespace s of
        Done (s1, payload', Some err) \<Rightarrow> Done (Inl err, payload', s1)
      | Done (s1, payload', None) \<Rightarrow>
          (case run_events jm L before ctx s1 of
             Done (ctx1, s2) \<Rightarrow>
               (case register_slot s2 of
                  (resultChan, s3) \<Rightarrow>
                    (case wait jm L pick resultChan during ctx1 s3 of
                       Done (res, s4) \<Rightarrow> Done (res, payload', s4)
                     | Panic \<Rightarrow> Panic
                     | Blocked \<Rightarrow> Blocked))
           | Panic \<Rightarrow> Panic
           | Blocked \<Rightarrow> Blocked)
      | Panic \<Rightarrow> Panic
      | Blocked \<Rightarrow> Blocked)"

subsection \<open>The counter without a lock\<close>

text \<open>
  \<open>Send\<close> reads and writes the global \<open>requestID\<close> without a lock: line 107 reads the
  counter and writes it back, one higher, and line 108 reads it again. The receive loop
  is another goroutine and calls \<open>Send\<close> itself (line 193), and so may other callers, so
  between these accesses the others may act. \<open>Send\<close>, above, is the call when nobody
  comes in between. \<open>Send_racing\<close> is the call with what the others do after its read and
  before its write of line 107 (\<open>during107\<close>) and between that write and the read of
  line 108 (\<open>before108\<close>): the value written is the one read at the start plus one,
  whatever the counter holds by then. What the others do there is a list of whole steps:
  a frame that the loop handles, a \<open>Send\<close> of another caller from its first line to its
  last, a cancellation. So one call lies inside another; two calls of which each begins
  before the other ends and ends after it are not among these schedules.
\<close>

text \<open>\<open>Send\<close> from line 108 on.\<close>

definition Send_rest :: "('a PayloadHeader_scheme \<Rightarrow> error + string) \<Rightarrow> libs \<Rightarrow> 'a PayloadHeader_scheme \<Rightarrow>
    string \<Rightarrow> string \<Rightarrow> string \<Rightarrow> state \<Rightarrow> (state \<times> 'a PayloadHeader_scheme \<times> error option) outcome" where
  "Send_rest jm L payload sourceID destinationID namespace s1 =
     (let payload' = SetRequestId (requestID s1) payload;
          s2 = s1\<lparr>issued := issued s1 @ [requestID s1]\<rparr>
      in case jm payload' of
           Inl err \<Rightarrow> Done (s2, payload', Some (Wrap err ''unable to marshal json payload''))
         | Inr payloadJson \<Rightarrow>
             (let message = \<lparr>ProtocolVersion = Some CASTV2_1_0, SourceId = Some sourceID,
                    DestinationId = Some destinationID, Namespace = Some namespace,
                    PayloadType = Some STRING, PayloadUtf8 = Some payloadJson\<rparr>
              in case proto_Marshal L (proto_SetDefaults message) of
                   Inl err \<Rightarrow> Done (s2, payload', Some (Wrap err ''unable to marshal proto payload''))
                 | Inr data \<Rightarrow>
                     (let s3 = log ''%s -> %s [%s]: %s'' s2
                      in case conn s3 of
                           None \<Rightarrow> Panic
                         | Some k \<Rightarrow>
                             (case conn_Write k (put_uint32 (of_nat (length data))) of
                                (k1, Some err) \<Rightarrow>
                                  Done (s3\<lparr>conn := Some k1\<rparr>, payload', Some (Wrap err ''unable to write binary format''))
                              | (k1, None) \<Rightarrow>
                                  (case conn_Write k1 data of
                                     (k2, Some err) \<Rightarrow>
                                       Done (s3\<lparr>conn := Some k2\<rparr>, payload', Some (Wrap err ''unable to send data''))
                                   | (k2, None) \<Rightarrow> Done (s3\<lparr>conn := Some k2\<rparr>, payload', None))))))"

text \<open>\<open>jmo\<close> is \<open>json.Marshal\<close> at the type of the others' payloads, \<open>jm\<close> at the type of
  this call's payload. The context is the caller's: a cancellation among the events sets
  it. \<open>Send_racing\<close> returns the context and what \<open>Send\<close> returns.\<close>

definition Send_racing :: "('a PayloadHeader_scheme \<Rightarrow> error + string) \<Rightarrow> libs \<Rightarrow> Context \<Rightarrow>
    ('b PayloadHeader_scheme \<Rightarrow> error + string) \<Rightarrow> 'b PayloadHeader_scheme \<Rightarrow>
    string \<Rightarrow> string \<Rightarrow> string \<Rightarrow> 'a event list \<Rightarrow> 'a event list \<Rightarrow> state \<Rightarrow>
    (Context \<times> state \<times> 'b PayloadHeader_scheme \<times> error option) outcome" where
  "Send_racing jmo L ctx jm payload sourceID destinationID namespace during107 before108 s =
     (case run_events jmo L during107 ctx s of
        Done (ctx1, sa) \<Rightarrow>
          (case run_events jmo L before108 ctx1 (sa\<lparr>requestID := go_int (requestID s + 1)\<rparr>) of
             Done (ctx2, sc) \<Rightarrow>
               (case Send_rest jm L payload sourceID destinationID namespace sc of
                  Done r \<Rightarrow> Done (ctx2, r)
                | Panic \<Rightarrow> Panic
                | Blocked \<Rightarrow> Blocked)
           | Panic \<Rightarrow> Panic
           | Blocked \<Rightarrow> Blocked)
      | Panic \<Rightarrow> Panic
      | Blocked \<Rightarrow> Blocked)"

text \<open>\<open>context.Background()\<close>: never done. It stands where a call has no context.\<close>

definition background :: Context where
  "background = \<lparr>ctx_Done = False, ctx_Err = Error []\<rparr>"

text \<open>\<open>handleMessage\<close> when the callers act during the Send of its PONG.\<close>

definition handleMessage_racing :: "('a PayloadHeader_scheme \<Rightarrow> error + string) \<Rightarrow> libs \<Rightarrow>
    CastMessage \<Rightarrow> PayloadHeader \<Rightarrow> 'a event list \<Rightarrow> 'a event list \<Rightarrow> state \<Rightarrow> state outcome" where
  "handleMessage_racing jmo L message headers during107 before108 s =
     (case PayloadUtf8 message of
        None \<Rightarrow> Panic
      | Some payloadUtf8 \<Rightarrow>
          (case jsonparser_GetString L payloadUtf8 ''type'' of
             Inl err \<Rightarrow> Done (log ''could not find type key in response message %q: %s'' s)
           | Inr messageType \<Rightarrow>
               if messageType = ''PING''
               then (case (SourceId message, DestinationId message, Namespace message) of
                       (Some src, Some dst, Some ns) \<Rightarrow>
                         (case Send_racing jmo L background (json_Marshal_PayloadHeader L) (PongHeader s)
                                 src dst ns during107 before108 s of
                            Done (ctx, s', pong, err) \<Rightarrow>
                              (let s'' = s'\<lparr>PongHeader := pong\<rparr>
                               in Done (case err of
                                          None \<Rightarrow> s''
                                        | Some e \<Rightarrow> log ''unable to respond to PING: %v'' s''))
                          | Panic \<Rightarrow> Panic
                          | Blocked \<Rightarrow> Blocked)
                     | _ \<Rightarrow> Panic)
               else (case jsonparser_GetInt L payloadUtf8 ''requestId'' of
                       (requestID', err) \<Rightarrow>
                         (let s1 = (case err of
                                      None \<Rightarrow> s
                                    | Some e \<Rightarrow> log ''unable to find requestId in proto payload %s: %v'' s)
                          in case resultChanMap s1 (go_int requestID') of
                               Some resultChan \<Rightarrow> chan_send resultChan message s1
                             | None \<Rightarrow> Done s1))))"

text \<open>\<open>SendAndWait\<close> when the others act during its Send of line 84.\<close>

definition SendAndWait_racing :: "('a PayloadHeader_scheme \<Rightarrow> error + string) \<Rightarrow> libs \<Rightarrow> Context \<Rightarrow>
    'a PayloadHeader_scheme \<Rightarrow> string \<Rightarrow> string \<Rightarrow> string \<Rightarrow>
    'a event list \<Rightarrow> 'a event list \<Rightarrow> 'a event list \<Rightarrow> 'a event list \<Rightarrow> bool \<Rightarrow> state \<Rightarrow>
    ((error + CastMessage) \<times> 'a PayloadHeader_scheme \<times> state) outcome" where
  "SendAndWait_racing jm L ctx payload sourceID destinationID namespace during107 before108
       before during pick s =
     (case Send_racing jm L ctx jm payload sourceID destinationID namespace during107 before108 s of
        Done (ctx0, s1, payload', Some err) \<Rightarrow> Done (Inl err, payload', s1)
      | Done (ctx0, s1, payload', None) \<Rightarrow>
          (case run_events jm L before ctx0 s1 of
             Done (ctx1, s2) \<Rightarrow>
               (case register_slot s2 of
                  (resultChan, s3) \<Rightarrow>
                    (case wait jm L pick resultChan during ctx1 s3 of
                       Done (res, s4) \<Rightarrow> Done (res, payload', s4)
                     | Panic \<Rightarrow> Panic
                     | Blocked \<Rightarrow> Blocked))
           | Panic \<Rightarrow> Panic
           | Blocked \<Rightarrow> Blocked)
      | Panic \<Rightarrow> Panic
      | Blocked \<Rightarrow> Blocked)"

subsection \<open>Stand-ins for the libraries\<close>

text \<open>
  The theorems hold for every choice of the library functions. Where a theorem is applied
  to a concrete run, the libraries are these small stand-ins: a payload text is its type,
  followed, when the request id is not zero, by \<open>#\<close> and the id in unary; an envelope is
  its four strings, each behind a length byte.
\<close>

definition toy_json_Marshal :: "PayloadHeader \<Rightarrow> error + string" where
  "toy_json_Marshal p =
     Inr (Type p @ (if RequestId p = 0 then [] else CHR ''#'' # replicate (nat (RequestId p)) CHR ''i''))"

definition toy_GetString :: "string \<Rightarrow> string \<Rightarrow> error + string" where
  "toy_GetString text key =
     (if key = ''type'' \<and> takeWhile (\<lambda>c. c \<noteq> CHR ''#'') text \<noteq> []
      then Inr (takeWhile (\<lambda>c. c \<noteq> CHR ''#'') text)
      else Inl (Error ''key path not found''))"

definition toy_GetInt :: "string \<Rightarrow> string \<Rightarrow> int \<times> error option" where
  "toy_GetInt text key =
     (if key = ''requestId'' \<and> CHR ''#'' \<in> set text
      then (int (length (tl (dropWhile (\<lambda>c. c \<noteq> CHR ''#'') text))), None)
      else (0, Some (Error ''key path not found'')))"

definition toy_json_Unmarshal :: "string \<Rightarrow> error + PayloadHeader" where
  "toy_json_Unmarshal text =
     (if text = [] then Inl (Error ''unexpected end of JSON input'')
      else Inr \<lparr>Type = takeWhile (\<lambda>c. c \<noteq> CHR ''#'') text, RequestId = fst (toy_GetInt text ''requestId'')\<rparr>)"

definition toy_field :: "string \<Rightarrow> byte list" where
  "toy_field text = of_nat (length text) # map (\<lambda>c. of_nat (of_char c)) text"

definition toy_take :: "byte list \<Rightarrow> (string \<times> byte list) option" where
  "toy_take bs = (case bs of
      [] \<Rightarrow> None
    | n # r \<Rightarrow> if unat n \<le> length r
        then Some (map (\<lambda>b. char_of (unat b)) (take (unat n) r), drop (unat n) r)
        else None)"

definition toy_proto_Marshal :: "CastMessage \<Rightarrow> error + byte list" where
  "toy_proto_Marshal m = (case (SourceId m, DestinationId m, Namespace m, PayloadUtf8 m) of
      (Some a, Some b, Some c, Some d) \<Rightarrow> Inr (toy_field a @ toy_field b @ toy_field c @ toy_field d)
    | _ \<Rightarrow> Inl (Error ''required field not set''))"

definition toy_proto_Unmarshal :: "byte list \<Rightarrow> error + CastMessage" where
  "toy_proto_Unmarshal bs = (case toy_take bs of
      None \<Rightarrow> Inl (Error ''unexpected EOF'')
    | Some (a, r1) \<Rightarrow> (case toy_take r1 of
        None \<Rightarrow> Inl (Error ''unexpected EOF'')
      | Some (b, r2) \<Rightarrow> (case toy_take r2 of
          None \<Rightarrow> Inl (Error ''unexpected EOF'')
        | Some (c, r3) \<Rightarrow> (case toy_take r3 of
            Some (d, []) \<Rightarrow> Inr \<lparr>ProtocolVersion = Some CASTV2_1_0, SourceId = Some a,
                DestinationId = Some b, Namespace = Some c, PayloadType = Some STRING,
                PayloadUtf8 = Some d\<rparr>
          | _ \<Rightarrow> Inl (Error ''unexpected EOF'')))))"

definition toy_libs :: libs where
  "toy_libs = \<lparr>json_Marshal_PayloadHeader = toy_json_Marshal,
     json_Unmarshal_PayloadHeader = toy_json_Unmarshal,
     proto_Marshal = toy_proto_Marshal, proto_Unmarshal = toy_proto_Unmarshal,
     jsonparser_GetString = toy_GetString, jsonparser_GetInt = toy_GetInt\<rparr>"

text \<open>A connection that \<open>Start\<close> has opened on a socket that accepts every write, and
  the frames of the runs below.\<close>

definition open_socket :: tls_Conn where
  "open_socket = \<lparr>outbound = [], wbudget = None\<rparr>"

definition started :: state where
  "started = fst (Start (Inr open_socket) (NewConnection False))"

definition frame_from_receiver :: "string \<Rightarrow> CastMessage" where
  "frame_from_receiver text = \<lparr>ProtocolVersion = Some CASTV2_1_0, SourceId = Some ''receiver-0'',
     DestinationId = Some ''sender-0'', Namespace = Some ''ns'', PayloadType = Some STRING,
     PayloadUtf8 = Some text\<rparr>"

subsection \<open>Reading results and runs\<close>

text \<open>What a call returned, if it returned; and what the slot registered under an id
  holds (\<open>None\<close>: no slot is registered under it).\<close>

definition returned :: "'a outcome \<Rightarrow> 'a option" where
  "returned r = (case r of Done x \<Rightarrow> Some x | _ \<Rightarrow> None)"

definition never_returns :: "'a outcome \<Rightarrow> bool" where
  "never_returns r = (case r of Blocked \<Rightarrow> True | _ \<Rightarrow> False)"

definition slot :: "int \<Rightarrow> state \<Rightarrow> CastMessage list option" where
  "slot r s = map_option (chans s) (resultChanMap s r)"

definition written :: "state \<Rightarrow> byte list" where
  "written s = (case conn s of None \<Rightarrow> [] | Some k \<Rightarrow> outbound k)"

text \<open>The socket accepts \<open>n\<close> more bytes.\<close>

definition accepts :: "tls_Conn \<Rightarrow> nat \<Rightarrow> bool" where
  "accepts k n = (case wbudget k of None \<Rightarrow> True | Some b \<Rightarrow> n \<le> b)"

definition GetStatusHeader :: PayloadHeader where
  "GetStatusHeader = \<lparr>Type = ''GET_STATUS'', RequestId = 0\<rparr>"

text \<open>A caller is inside \<open>SendAndWait\<close>: its GET_STATUS is sent, with id 1, its slot is
  registered, and it waits.\<close>

definition waiting :: state where
  "waiting = (case Send toy_json_Marshal toy_libs GetStatusHeader ''sender-0'' ''receiver-0'' ''ns'' started of
      Done (s, payload, err) \<Rightarrow> snd (register_slot s)
    | _ \<Rightarrow> started)"


text \<open>The reading and decoding of one frame, lines 143 to 169 of \<open>receiveLoop\<close>, on their
  own: the envelope and the rest of the stream, when the frame is read whole and decodes.\<close>

definition decode_frame :: "libs \<Rightarrow> rd list \<Rightarrow> (CastMessage \<times> rd list) option" where
  "decode_frame L inp =
     (case binary_Read_uint32 inp of
        (length', Some err, rest) \<Rightarrow> None
      | (length', None, rest) \<Rightarrow>
          if length' = 0 then None
          else (case ReadFull (unat length') rest of
                  (payload, Some err, rest') \<Rightarrow> None
                | (payload, None, rest') \<Rightarrow>
                    if length payload \<noteq> unat length' then None
                    else (case proto_Unmarshal L payload of
                            Inl err \<Rightarrow> None
                          | Inr message \<Rightarrow> Some (message, rest'))))"

text \<open>A stream of bytes that arrive without a failing read.\<close>

definition arriving :: "byte list \<Rightarrow> rd list" where
  "arriving bs = map B bs"

text \<open>The frame of an envelope on the wire, with the stand-in codec.\<close>

definition wire :: "CastMessage \<Rightarrow> rd list" where
  "wire m = (case toy_proto_Marshal m of
      Inr data \<Rightarrow> arriving (put_uint32 (of_nat (length data)) @ data)
    | Inl err \<Rightarrow> [])"

text \<open>What the peer decodes, with the stand-in codec, from the bytes written so far.\<close>

definition peer_decodes :: "state \<Rightarrow> (CastMessage \<times> rd list) option" where
  "peer_decodes s = decode_frame toy_libs (arriving (written s))"

text \<open>The parts of what \<open>SendAndWait\<close> and \<open>Send\<close> return, when they return.\<close>

definition result_of :: "('r \<times> 'p \<times> state) outcome \<Rightarrow> 'r option" where
  "result_of x = map_option fst (returned x)"

definition payload_of :: "('r \<times> 'p \<times> state) outcome \<Rightarrow> 'p option" where
  "payload_of x = map_option (fst \<circ> snd) (returned x)"

definition state_of :: "('r \<times> 'p \<times> state) outcome \<Rightarrow> state option" where
  "state_of x = map_option (snd \<circ> snd) (returned x)"

definition state_after_Send :: "(state \<times> 'p \<times> error option) outcome \<Rightarrow> state option" where
  "state_after_Send x = map_option fst (returned x)"

text \<open>A context with a deadline that has not passed yet, and \<open>LaunchHeader\<close> of payload.go.\<close>

definition with_deadline :: Context where
  "with_deadline = \<lparr>ctx_Done = False, ctx_Err = Error ''context deadline exceeded''\<rparr>"

definition LaunchHeader :: PayloadHeader where
  "LaunchHeader = \<lparr>Type = ''LAUNCH'', RequestId = 0\<rparr>"

definition no_headers :: PayloadHeader where
  "no_headers = \<lparr>Type = [], RequestId = 0\<rparr>"

subsection \<open>Runs of the program\<close>

text \<open>
  What the program does to the connection, call by call: the callers' calls of \<open>Start\<close>,
  \<open>SetDebug\<close>, \<open>Send\<close> and \<open>SendAndWait\<close>, and the receive loop handing a decoded frame
  to \<open>handleMessage\<close>. The calls of the callers and of the loop overlap: every call that
  goes through \<open>Send\<close> comes with what the other goroutines do between its accesses to
  the counter (\<open>during107\<close>, \<open>before108\<close>), and \<open>SendAndWait\<close> also with what they do
  before its registration and while it waits. A run stops when a call panics or never
  returns.
\<close>

datatype 'a op =
    DoStart "error + tls_Conn"
  | DoSetDebug bool
  | DoSend "'a PayloadHeader_scheme" string string string "'a event list" "'a event list"
  | DoSendAndWait Context "'a PayloadHeader_scheme" string string string
      "'a event list" "'a event list" "'a event list" "'a event list" bool
  | DoInbound CastMessage PayloadHeader "'a event list" "'a event list"

fun exec_op :: "('a PayloadHeader_scheme \<Rightarrow> error + string) \<Rightarrow> libs \<Rightarrow> 'a op \<Rightarrow> state \<Rightarrow> state outcome" where
  "exec_op jm L (DoStart dial) s = Done (fst (Start dial s))"
| "exec_op jm L (DoSetDebug dbg) s = Done (SetDebug dbg s)"
| "exec_op jm L (DoSend payload sourceID destinationID namespace during107 before108) s =
     (case Send_racing jm L background jm payload sourceID destinationID namespace
             during107 before108 s of
        Done (ctx, s', payload', err) \<Rightarrow> Done s'
      | Panic \<Rightarrow> Panic
      | Blocked \<Rightarrow> Blocked)"
| "exec_op jm L (DoSendAndWait ctx payload sourceID destinationID namespace during107 before108
       before during pick) s =
     (case SendAndWait_racing jm L ctx payload sourceID destinationID namespace during107 before108
             before during pick s of
        Done (res, payload', s') \<Rightarrow> Done s'
      | Panic \<Rightarrow> Panic
      | Blocked \<Rightarrow> Blocked)"
| "exec_op jm L (DoInbound message headers during107 before108) s =
     handleMessage_racing jm L message headers during107 before108 s"

fun exec_ops :: "('a PayloadHeader_scheme \<Rightarrow> error + string) \<Rightarrow> libs \<Rightarrow> 'a op list \<Rightarrow> state \<Rightarrow> state outcome" where
  "exec_ops jm L [] s = Done s"
| "exec_ops jm L (x # xs) s =
     (case exec_op jm L x s of
        Done s' \<Rightarrow> exec_ops jm L xs s'
      | Panic \<Rightarrow> Panic
      | Blocked \<Rightarrow> Blocked)"

text \<open>The ids that a run has handed out, in order, when the run comes to its end.\<close>

definition ids_issued :: "state outcome \<Rightarrow> int list" where
  "ids_issued x = (case x of Done s \<Rightarrow> issued s | _ \<Rightarrow> [])"

text \<open>The ids that the counter gives to the first \<open>n\<close> calls of Send.\<close>

definition ids_upto :: "nat \<Rightarrow> int list" where
  "ids_upto n = map (\<lambda>i. go_int (int i)) [1..<Suc n]"

text \<open>What holds of the counter and of the table along a run in which no call comes into
  another between line 107 and line 108: the ids handed out are those of the counter,
  the counter stands at the last of them, and every key of the correlation table is one
  of them.\<close>

definition counter_ok :: "state \<Rightarrow> bool" where
  "counter_ok s \<longleftrightarrow> issued s = ids_upto (length (issued s))
     \<and> requestID s = go_int (int (length (issued s)))
     \<and> dom (resultChanMap s) \<subseteq> set (issued s)"

text \<open>An event during which nobody calls \<open>Send\<close>: a cancellation, or a frame that is no
  PING. And the key under which \<open>handleMessage\<close> looks a frame up in the table.\<close>

fun quiet :: "libs \<Rightarrow> 'a event \<Rightarrow> bool" where
  "quiet L (Inbound message headers) =
     (case PayloadUtf8 message of
        None \<Rightarrow> True
      | Some js \<Rightarrow> jsonparser_GetString L js ''type'' \<noteq> Inr ''PING'')"
| "quiet L Cancel = True"
| "quiet L (OtherSend payload sourceID destinationID namespace) = False"

definition request_key :: "libs \<Rightarrow> CastMessage \<Rightarrow> int option" where
  "request_key L message =
     (case PayloadUtf8 message of
        None \<Rightarrow> None
      | Some js \<Rightarrow> Some (go_int (fst (jsonparser_GetInt L js ''requestId''))))"

text \<open>Every channel in the table has been made.\<close>

definition table_wf :: "state \<Rightarrow> bool" where
  "table_wf s \<longleftrightarrow> (\<forall>r ch. resultChanMap s r = Some ch \<longrightarrow> ch < next_chan s)"

text \<open>What the channel of the call holds: while the call's key is the only one that leads
  to the channel, every envelope in it has that key.\<close>

definition holds_key :: "libs \<Rightarrow> nat \<Rightarrow> int \<Rightarrow> state \<Rightarrow> bool" where
  "holds_key L ch k s \<longleftrightarrow> (\<forall>r. resultChanMap s r = Some ch \<longrightarrow> r = k)
     \<and> (\<forall>m \<in> set (chans s ch). request_key L m = Some k)"

text \<open>What holds of the counter and of the table while calls overlap: the counter is at
  least \<open>lo\<close> and at most the number of ids handed out plus \<open>d\<close> (the calls that have
  written the counter and not yet read it back), every id handed out is at least 1, and
  every key of the correlation table is one of these ids.\<close>

definition ids_ok :: "int \<Rightarrow> nat \<Rightarrow> state \<Rightarrow> bool" where
  "ids_ok lo d s \<longleftrightarrow> lo \<le> requestID s
     \<and> requestID s \<le> int (length (issued s)) + int d
     \<and> (\<forall>r \<in> set (issued s). 1 \<le> r)
     \<and> dom (resultChanMap s) \<subseteq> set (issued s)"

text \<open>A call into which nobody comes between the accesses to the counter.\<close>

fun no_overlap :: "'a op \<Rightarrow> bool" where
  "no_overlap (DoSend payload sourceID destinationID namespace during107 before108) =
     (during107 = [] \<and> before108 = [])"
| "no_overlap (DoSendAndWait ctx payload sourceID destinationID namespace during107 before108
       before during pick) = (during107 = [] \<and> before108 = [])"
| "no_overlap (DoInbound message headers during107 before108) = (during107 = [] \<and> before108 = [])"
| "no_overlap x = True"

section \<open>Properties\<close>

subsection \<open>What Send and the logger leave alone\<close>

lemma log_frame [simp]:
  "requestID (log m s) = requestID s" "conn (log m s) = conn s"
  "resultChanMap (log m s) = resultChanMap s" "chans (log m s) = chans s"
  "next_chan (log m s) = next_chan s" "connected (log m s) = connected s"
  "debug (log m s) = debug s" "PongHeader (log m s) = PongHeader s"
  "issued (log m s) = issued s"
  by (simp_all add: log_def)

lemma Send_unchanged:
  assumes "Send jm L payload a b c s = Done (s', payload', err)"
  shows "resultChanMap s' = resultChanMap s" "chans s' = chans s" "next_chan s' = next_chan s"
    "connected s' = connected s" "debug s' = debug s" "PongHeader s' = PongHeader s"
    "requestID s' = go_int (requestID s + 1)" "issued s' = issued s @ [go_int (requestID s + 1)]"
    "payload' = SetRequestId (go_int (requestID s + 1)) payload"
  using assms
  by (auto simp: Send_def Let_def split: sum.splits option.splits prod.splits)

lemma conn_Write_accepts:
  "accepts k (length bs + n) \<Longrightarrow>
   \<exists>k'. conn_Write k bs = (k', None) \<and> outbound k' = outbound k @ bs \<and> accepts k' n"
  by (auto simp: conn_Write_def accepts_def split: option.splits)

lemma length_put_uint32 [simp]: "length (put_uint32 w) = 4"
  by (simp add: put_uint32_def)

lemma Send_success:
  assumes k: "conn s = Some k"
    and js: "jm (SetRequestId (go_int (requestID s + 1)) payload) = Inr payloadJson"
    and data: "proto_Marshal L \<lparr>ProtocolVersion = Some CASTV2_1_0, SourceId = Some a,
       DestinationId = Some b, Namespace = Some c, PayloadType = Some STRING,
       PayloadUtf8 = Some payloadJson\<rparr> = Inr data"
    and acc: "accepts k (4 + length data)"
  shows "\<exists>s' k'. Send jm L payload a b c s = Done (s', SetRequestId (go_int (requestID s + 1)) payload, None)
     \<and> conn s' = Some k' \<and> outbound k' = outbound k @ put_uint32 (of_nat (length data)) @ data"
proof -
  from conn_Write_accepts [of k "put_uint32 (of_nat (length data))" "length data"] acc
  obtain k1 where k1: "conn_Write k (put_uint32 (of_nat (length data))) = (k1, None)"
    "outbound k1 = outbound k @ put_uint32 (of_nat (length data))" "accepts k1 (length data)"
    by auto
  from conn_Write_accepts [of k1 data 0] k1
  obtain k2 where k2: "conn_Write k1 data = (k2, None)" "outbound k2 = outbound k1 @ data"
    by auto
  show ?thesis
    using k js data k1 k2
    by (simp add: Send_def Let_def proto_SetDefaults_def)
qed

subsection \<open>Start\<close>

text \<open>
  C5. The claim: when the dial fails, Start returns an error, leaves the connection idle,
  and no receive loop runs; the loop is started only after a successful dial. The code:
  the deferred function of line 52 runs on every return of the branch, so a failed dial
  returns the error, leaves \<open>connected\<close> false and \<open>conn\<close> nil, and still starts one
  receive loop; that loop reads from the nil connection and panics.
\<close>

theorem Start_failed_dial_starts_receiveLoop:
  "Start (Inl (Error ''connection refused'')) (NewConnection False) =
     (NewConnection False, Some (Wrap (Error ''connection refused'') ''unable to connect to chromecast''), 1)
   \<and> connected (NewConnection False) = False
   \<and> receiveLoop toy_libs [] (NewConnection False) = Panic"
  by (simp add: Start_def connect_def NewConnection_def receiveLoop.simps receiveLoop_body_def)

subsection \<open>The end of the receive loop\<close>

text \<open>
  C2, as the claim states it, fails: with a caller waiting on the slot of id 1, the socket
  closes, the loop ends, and afterwards the connection still counts as connected and the
  slot is still registered and still empty. The caller, whose channel is number 0, goes
  on waiting: with no cancellation it never returns.
\<close>

theorem receiveLoop_exit_notifies_nobody:
  "map_option connected (returned (receiveLoop toy_libs [] waiting)) = Some True
   \<and> map_option (slot 1) (returned (receiveLoop toy_libs [] waiting)) = Some (Some [])
   \<and> resultChanMap waiting 1 = Some 0
   \<and> never_returns (wait toy_json_Marshal toy_libs False 0 [] with_deadline waiting)"
  by code_simp

text \<open>
  C2, amended: when the read of the length prefix fails, the loop returns, and all it has
  done is to log the failure: \<open>connected\<close>, the correlation table and every channel are as
  they were. There is no closed state and no slot is told.
\<close>

theorem receiveLoop_exit_changes_nothing:
  assumes "conn s = Some k" and "binary_Read_uint32 inp = (w, Some err, rest)"
  shows "receiveLoop L inp s = Done (log ''failed to binary read payload: %v'' s)
    \<and> connected (log ''failed to binary read payload: %v'' s) = connected s
    \<and> resultChanMap (log ''failed to binary read payload: %v'' s) = resultChanMap s
    \<and> chans (log ''failed to binary read payload: %v'' s) = chans s"
  using assms by (simp add: receiveLoop.simps receiveLoop_body_def)

theorem receiveLoop_exit_changes_nothing_witness:
  "receiveLoop toy_libs [B 0, B 0] waiting = Done waiting \<and> connected waiting"
proof -
  have c: "conn waiting = Some \<lparr>outbound = the (map_option outbound (conn waiting)), wbudget = None\<rparr>"
    by code_simp
  have r: "binary_Read_uint32 [B 0, B 0] = (0, Some (Error ''EOF''), [])"
    by code_simp
  have d: "debug waiting = False" "connected waiting"
    by code_simp+
  from receiveLoop_exit_changes_nothing [OF c r, of toy_libs] d show ?thesis
    by (simp add: log_def)
qed

subsection \<open>PING\<close>

text \<open>
  C3, as the claim states it, fails: the PONG goes out with the source and destination of
  the PING as they are, not swapped. A PING from \<open>receiver-0\<close> to \<open>sender-0\<close> is answered
  by a frame that decodes to a PONG from \<open>receiver-0\<close> to \<open>sender-0\<close>.
\<close>

theorem PONG_source_destination_not_swapped:
  "map_option peer_decodes
     (returned (handleMessage toy_libs
        \<lparr>ProtocolVersion = Some CASTV2_1_0, SourceId = Some ''receiver-0'',
         DestinationId = Some ''sender-0'', Namespace = Some ''ns'', PayloadType = Some STRING,
         PayloadUtf8 = Some ''PING''\<rparr> \<lparr>Type = ''PING'', RequestId = 0\<rparr> started))
   = Some (Some (\<lparr>ProtocolVersion = Some CASTV2_1_0, SourceId = Some ''receiver-0'',
         DestinationId = Some ''sender-0'', Namespace = Some ''ns'', PayloadType = Some STRING,
         PayloadUtf8 = Some ''PONG#i''\<rparr>, []))"
  by code_simp

text \<open>
  C3, amended: for an inbound frame of type PING, on an open connection, when the PONG
  encodes and the socket takes the frame, \<open>handleMessage\<close> writes exactly one frame, the
  envelope of the PONG header with the next request id, whose source, destination and
  namespace are those of the PING, each in its own place; the correlation table and
  every channel are as they were. (When the encoding or the write fails, the failure is
  logged and the frame is missing or cut short.)
\<close>

theorem handleMessage_PING:
  assumes "PayloadUtf8 message = Some text"
    and "jsonparser_GetString L text ''type'' = Inr ''PING''"
    and "SourceId message = Some src" and "DestinationId message = Some dst"
    and "Namespace message = Some ns"
    and "conn s = Some k" and "Type (PongHeader s) = ''PONG''"
    and "json_Marshal_PayloadHeader L \<lparr>Type = ''PONG'', RequestId = go_int (requestID s + 1)\<rparr> = Inr pong"
    and "proto_Marshal L \<lparr>ProtocolVersion = Some CASTV2_1_0, SourceId = Some src,
       DestinationId = Some dst, Namespace = Some ns, PayloadType = Some STRING,
       PayloadUtf8 = Some pong\<rparr> = Inr data"
    and "accepts k (4 + length data)"
  shows "\<exists>s'. handleMessage L message headers s = Done s'
     \<and> written s' = written s @ put_uint32 (of_nat (length data)) @ data
     \<and> resultChanMap s' = resultChanMap s \<and> chans s' = chans s"
proof -
  have hdr: "SetRequestId (go_int (requestID s + 1)) (PongHeader s)
      = \<lparr>Type = ''PONG'', RequestId = go_int (requestID s + 1)\<rparr>"
    using assms(7) by (simp add: SetRequestId_def)
  from Send_success [of s k "json_Marshal_PayloadHeader L" "PongHeader s" pong L src dst ns data]
    assms hdr
  obtain s1 k1 where s1: "Send (json_Marshal_PayloadHeader L) L (PongHeader s) src dst ns s
      = Done (s1, SetRequestId (go_int (requestID s + 1)) (PongHeader s), None)"
    "conn s1 = Some k1" "outbound k1 = outbound k @ put_uint32 (of_nat (length data)) @ data"
    by auto
  from Send_unchanged [OF s1(1)] have fr: "resultChanMap s1 = resultChanMap s" "chans s1 = chans s"
    by simp_all
  show ?thesis
    using assms(1-6) s1 fr by (simp add: handleMessage_def written_def)
qed

theorem handleMessage_PING_witness:
  "\<exists>s'. handleMessage toy_libs (frame_from_receiver ''PING'') \<lparr>Type = ''PING'', RequestId = 0\<rparr> started = Done s'
     \<and> written s' = [0, 0, 0, 30, 10, 114, 101, 99, 101, 105, 118, 101, 114, 45, 48, 8, 115, 101,
           110, 100, 101, 114, 45, 48, 2, 110, 115, 6, 80, 79, 78, 71, 35, 105]
     \<and> resultChanMap s' = resultChanMap started \<and> chans s' = chans started"
proof -
  have h1: "PayloadUtf8 (frame_from_receiver ''PING'') = Some ''PING''"
    and h2: "jsonparser_GetString toy_libs ''PING'' ''type'' = Inr ''PING''"
    and h3: "SourceId (frame_from_receiver ''PING'') = Some ''receiver-0''"
    and h4: "DestinationId (frame_from_receiver ''PING'') = Some ''sender-0''"
    and h5: "Namespace (frame_from_receiver ''PING'') = Some ''ns''"
    and h6: "conn started = Some open_socket"
    and h7: "Type (PongHeader started) = ''PONG''"
    by code_simp+
  have h8: "json_Marshal_PayloadHeader toy_libs \<lparr>Type = ''PONG'', RequestId = go_int (requestID started + 1)\<rparr>
      = Inr ''PONG#i''"
    by code_simp
  have h9: "proto_Marshal toy_libs \<lparr>ProtocolVersion = Some CASTV2_1_0, SourceId = Some ''receiver-0'',
       DestinationId = Some ''sender-0'', Namespace = Some ''ns'', PayloadType = Some STRING,
       PayloadUtf8 = Some ''PONG#i''\<rparr>
      = Inr [10, 114, 101, 99, 101, 105, 118, 101, 114, 45, 48, 8, 115, 101,
           110, 100, 101, 114, 45, 48, 2, 110, 115, 6, 80, 79, 78, 71, 35, 105]"
    by code_simp
  have h10: "accepts open_socket (4 + length [10, 114, 101, 99, 101, 105, 118, 101, 114, 45, 48, 8, 115, 101,
           110, 100, 101, 114, 45, 48, 2, 110, 115, 6, 80, 79, 78, 71, 35, 105 :: byte])"
    by code_simp
  have w: "written started = []" "put_uint32 30 = [0, 0, 0, 30]"
    by code_simp+
  from handleMessage_PING [OF h1 h2 h3 h4 h5 h6 h7 h8 h9 h10, of "\<lparr>Type = ''PING'', RequestId = 0\<rparr>"] w
  show ?thesis by simp
qed

subsection \<open>Framing\<close>

lemma returned_simps [simp]:
  "returned (Done x) = Some x" "returned Panic = None" "returned Blocked = None"
  by (simp_all add: returned_def)

lemma get_put_uint32: "get_uint32 (put_uint32 w) = w"
  unfolding get_uint32_def put_uint32_def
  apply simp
  apply (rule bit_word_eqI)
  apply (auto simp: bit_simps)
  subgoal for n by (cases "16 \<le> n") auto
  subgoal for n by (cases "16 \<le> n"; cases "24 \<le> n") auto
  done

lemma ReadFull_0 [simp]: "ReadFull 0 xs = ([], None, xs)"
  by (cases "(0::nat, xs)" rule: ReadFull.cases) auto

lemma ReadFull_bytes: "ReadFull (length bs) (arriving bs @ rest) = (bs, None, rest)"
  unfolding arriving_def by (induction bs) auto

lemma ReadFull_short_E:
  "length bs < n \<Longrightarrow> ReadFull n (arriving bs @ E # rest) = (bs, Some (Error ''read''), rest)"
  unfolding arriving_def by (induction bs arbitrary: n) auto

lemma ReadFull_short_EOF:
  "length bs < n \<Longrightarrow> ReadFull n (arriving bs) = (bs, Some (Error ''EOF''), [])"
  unfolding arriving_def by (induction bs arbitrary: n) auto

lemma arriving_append [simp]: "arriving (xs @ ys) = arriving xs @ arriving ys"
  by (simp add: arriving_def)

lemma binary_Read_uint32_prefix:
  "binary_Read_uint32 (arriving (put_uint32 w) @ rest) = (w, None, rest)"
  using ReadFull_bytes [of "put_uint32 w" rest]
  by (simp add: binary_Read_uint32_def get_put_uint32)

lemma binary_Read_uint32_EOF: "binary_Read_uint32 [] = (0, Some (Error ''EOF''), [])"
  by (simp add: binary_Read_uint32_def)

lemma unat_length: "n < 2 ^ 32 \<Longrightarrow> unat (of_nat n :: 32 word) = n"
  by (simp add: unat_of_nat)

lemma length_word_nonzero: "0 < n \<Longrightarrow> n < 2 ^ 32 \<Longrightarrow> (of_nat n :: 32 word) \<noteq> 0"
  using unat_length [of n] by auto

text \<open>What \<open>decode_frame\<close> gives is what the loop hands on: when a frame decodes, the body
  of the loop is the rest of the body, from line 171, on that envelope.\<close>

lemma receiveLoop_body_decode:
  assumes "conn s = Some k" and "decode_frame L inp = Some (message, rest)"
  shows "receiveLoop_body L inp s =
     (case (DestinationId message, SourceId message, Namespace message, PayloadUtf8 message) of
        (Some dst, Some src, Some ns, Some payloadUtf8) \<Rightarrow>
          (case json_Unmarshal_PayloadHeader L payloadUtf8 of
             Inl err \<Rightarrow> Continue rest (log ''failed to unmarshal proto message header: %v''
                                         (log ''%s <- %s [%s]: %s'' s))
           | Inr headers \<Rightarrow>
               (case handleMessage L message headers (log ''%s <- %s [%s]: %s'' s) of
                  Done s2 \<Rightarrow> Continue rest s2
                | Panic \<Rightarrow> Panics
                | Blocked \<Rightarrow> Blocks))
      | _ \<Rightarrow> Panics)"
proof -
  obtain w e r where rd: "binary_Read_uint32 inp = (w, e, r)"
    by (cases "binary_Read_uint32 inp") auto
  with assms(2) have e: "e = None" "w \<noteq> 0"
    by (auto simp: decode_frame_def split: option.splits if_splits)
  obtain p e2 r2 where rf: "ReadFull (unat w) r = (p, e2, r2)"
    by (cases "ReadFull (unat w) r") auto
  with assms(2) rd e have p: "e2 = None" "length p = unat w" "proto_Unmarshal L p = Inr message" "r2 = rest"
    by (auto simp: decode_frame_def split: option.splits if_splits sum.splits)
  show ?thesis
    using assms(1) rd e rf p by (simp add: receiveLoop_body_def Let_def split: option.splits)
qed
text \<open>
  C9. The receive loop goes on after malformed input. With the connection open: after a
  length prefix of zero, after a frame that a failing read cuts short, after a frame
  whose bytes are no envelope, and after an envelope whose payload is no JSON header, the
  loop has logged the line of that case and runs on the rest of the stream as it would
  have run on it from the start. When the socket closes inside a frame, the loop goes on
  as well, and ends at the next read of a length prefix, which fails.
\<close>

theorem receiveLoop_survives_malformed_input:
  assumes "conn s = Some k"
    and "n \<noteq> 0" and "length short < unat n"
    and "bad \<noteq> []" and "length bad < 2 ^ 32" and "proto_Unmarshal L bad = Inl err1"
    and "env \<noteq> []" and "length env < 2 ^ 32" and "proto_Unmarshal L env = Inr message"
    and "DestinationId message = Some dst" and "SourceId message = Some src"
    and "Namespace message = Some ns" and "PayloadUtf8 message = Some text"
    and "json_Unmarshal_PayloadHeader L text = Inl err2"
  shows "receiveLoop L (arriving (put_uint32 0) @ rest) s
       = receiveLoop L rest (log ''empty payload received'' s)
    \<and> receiveLoop L (arriving (put_uint32 n @ short) @ E # rest) s
       = receiveLoop L rest (log ''failed to read payload: %v'' s)
    \<and> receiveLoop L (arriving (put_uint32 n @ short)) s
       = Done (log ''failed to binary read payload: %v'' (log ''failed to read payload: %v'' s))
    \<and> receiveLoop L (arriving (put_uint32 (of_nat (length bad)) @ bad) @ rest) s
       = receiveLoop L rest (log ''failed to unmarshal proto cast message %s: %v'' s)
    \<and> receiveLoop L (arriving (put_uint32 (of_nat (length env)) @ env) @ rest) s
       = receiveLoop L rest (log ''failed to unmarshal proto message header: %v''
           (log ''%s <- %s [%s]: %s'' s))"
proof (intro conjI)
  show "receiveLoop L (arriving (put_uint32 0) @ rest) s
      = receiveLoop L rest (log ''empty payload received'' s)"
    using assms(1)
    by (subst receiveLoop.simps) (simp add: receiveLoop_body_def binary_Read_uint32_prefix)
  show "receiveLoop L (arriving (put_uint32 n @ short) @ E # rest) s
      = receiveLoop L rest (log ''failed to read payload: %v'' s)"
    using assms(1-3)
    by (subst receiveLoop.simps)
      (simp add: receiveLoop_body_def binary_Read_uint32_prefix ReadFull_short_E)
  have "receiveLoop L (arriving (put_uint32 n @ short)) s
      = receiveLoop L [] (log ''failed to read payload: %v'' s)"
    using assms(1-3) binary_Read_uint32_prefix [of n "arriving short"]
    by (subst receiveLoop.simps) (simp add: receiveLoop_body_def ReadFull_short_EOF)
  also have "\<dots> = Done (log ''failed to binary read payload: %v'' (log ''failed to read payload: %v'' s))"
    using assms(1)
    by (subst receiveLoop.simps) (simp add: receiveLoop_body_def binary_Read_uint32_EOF)
  finally show "receiveLoop L (arriving (put_uint32 n @ short)) s
      = Done (log ''failed to binary read payload: %v'' (log ''failed to read payload: %v'' s))" .
  have bad: "unat (of_nat (length bad) :: 32 word) = length bad" "(of_nat (length bad) :: 32 word) \<noteq> 0"
    using assms(4,5) by (simp_all add: unat_length length_word_nonzero)
  show "receiveLoop L (arriving (put_uint32 (of_nat (length bad)) @ bad) @ rest) s
      = receiveLoop L rest (log ''failed to unmarshal proto cast message %s: %v'' s)"
    using assms(1,6) bad ReadFull_bytes [of bad rest]
    by (subst receiveLoop.simps) (simp add: receiveLoop_body_def binary_Read_uint32_prefix)
  have env: "unat (of_nat (length env) :: 32 word) = length env" "(of_nat (length env) :: 32 word) \<noteq> 0"
    using assms(7,8) by (simp_all add: unat_length length_word_nonzero)
  show "receiveLoop L (arriving (put_uint32 (of_nat (length env)) @ env) @ rest) s
      = receiveLoop L rest (log ''failed to unmarshal proto message header: %v''
          (log ''%s <- %s [%s]: %s'' s))"
    using assms(1,9-14) env ReadFull_bytes [of env rest]
    by (subst receiveLoop.simps) (simp add: receiveLoop_body_def binary_Read_uint32_prefix)
qed

theorem receiveLoop_survives_malformed_input_witness:
  "map_option written (returned (receiveLoop toy_libs
      (arriving (put_uint32 0) @ wire (frame_from_receiver ''PING'')) started))
     = map_option written (returned (receiveLoop toy_libs (wire (frame_from_receiver ''PING'')) started))
   \<and> map_option written (returned (receiveLoop toy_libs
      (arriving (put_uint32 5 @ [7]) @ E # wire (frame_from_receiver ''PING'')) started))
     = map_option written (returned (receiveLoop toy_libs (wire (frame_from_receiver ''PING'')) started))
   \<and> map_option written (returned (receiveLoop toy_libs (arriving (put_uint32 5 @ [7])) started))
     = Some []
   \<and> map_option written (returned (receiveLoop toy_libs
      (arriving (put_uint32 1 @ [1]) @ wire (frame_from_receiver ''PING'')) started))
     = map_option written (returned (receiveLoop toy_libs (wire (frame_from_receiver ''PING'')) started))
   \<and> map_option written (returned (receiveLoop toy_libs
      (arriving (put_uint32 7 @ [1, 97, 1, 98, 1, 99, 0]) @ wire (frame_from_receiver ''PING'')) started))
     = map_option written (returned (receiveLoop toy_libs (wire (frame_from_receiver ''PING'')) started))
   \<and> map_option written (returned (receiveLoop toy_libs (wire (frame_from_receiver ''PING'')) started))
     = Some [0, 0, 0, 30, 10, 114, 101, 99, 101, 105, 118, 101, 114, 45, 48, 8, 115, 101,
           110, 100, 101, 114, 45, 48, 2, 110, 115, 6, 80, 79, 78, 71, 35, 105]"
proof -
  have h1: "conn started = Some open_socket"
    and h6: "proto_Unmarshal toy_libs [1] = Inl (Error ''unexpected EOF'')"
    and h9: "proto_Unmarshal toy_libs [1, 97, 1, 98, 1, 99, 0] = Inr \<lparr>ProtocolVersion = Some CASTV2_1_0,
        SourceId = Some ''a'', DestinationId = Some ''b'', Namespace = Some ''c'',
        PayloadType = Some STRING, PayloadUtf8 = Some []\<rparr>"
    and h10: "json_Unmarshal_PayloadHeader toy_libs [] = Inl (Error ''unexpected end of JSON input'')"
    by code_simp+
  have h2: "(5 :: 32 word) \<noteq> 0" and h3: "length [7 :: byte] < unat (5 :: 32 word)"
    and h4: "[1 :: byte] \<noteq> []" and h5: "length [1 :: byte] < 2 ^ 32"
    and h7: "[1, 97, 1, 98, 1, 99, 0 :: byte] \<noteq> []"
    and h8: "length [1, 97, 1, 98, 1, 99, 0 :: byte] < 2 ^ 32"
    by simp_all
  have h11: "DestinationId \<lparr>ProtocolVersion = Some CASTV2_1_0,
        SourceId = Some ''a'', DestinationId = Some ''b'', Namespace = Some ''c'',
        PayloadType = Some STRING, PayloadUtf8 = Some []\<rparr> = Some ''b''"
    and h12: "SourceId \<lparr>ProtocolVersion = Some CASTV2_1_0,
        SourceId = Some ''a'', DestinationId = Some ''b'', Namespace = Some ''c'',
        PayloadType = Some STRING, PayloadUtf8 = Some []\<rparr> = Some ''a''"
    and h13: "Namespace \<lparr>ProtocolVersion = Some CASTV2_1_0,
        SourceId = Some ''a'', DestinationId = Some ''b'', Namespace = Some ''c'',
        PayloadType = Some STRING, PayloadUtf8 = Some []\<rparr> = Some ''c''"
    and h14: "PayloadUtf8 \<lparr>ProtocolVersion = Some CASTV2_1_0,
        SourceId = Some ''a'', DestinationId = Some ''b'', Namespace = Some ''c'',
        PayloadType = Some STRING, PayloadUtf8 = Some []\<rparr> = Some []"
    by simp_all
  have d: "log m started = started" for m
    by (simp add: log_def started_def Start_def connect_def NewConnection_def)
  have w: "written started = []"
    by code_simp
  have p: "map_option written (returned (receiveLoop toy_libs (wire (frame_from_receiver ''PING'')) started))
     = Some [0, 0, 0, 30, 10, 114, 101, 99, 101, 105, 118, 101, 114, 45, 48, 8, 115, 101,
           110, 100, 101, 114, 45, 48, 2, 110, 115, 6, 80, 79, 78, 71, 35, 105]"
    by code_simp
  from receiveLoop_survives_malformed_input [where rest = "wire (frame_from_receiver ''PING'')",
      OF h1 h2 h3 h4 h5 h6 h7 h8 h9 h11 h12 h13 h14 h10]
  show ?thesis
    by (simp add: d w p)
qed

text \<open>
  C8. A Send that goes through writes four bytes, the length of the envelope as a
  big-endian unsigned number, and then the envelope, and nothing else; the four bytes
  read back as the length of the envelope; and the receive loop's decoding of these
  bytes gives back the envelope that Send built, with the JSON text that Send put into
  it. The envelope is shorter than \<open>2 ^ 32\<close> bytes (what a uint32 can say) and not empty,
  and the protobuf library decodes what it has encoded.
\<close>

theorem Send_frame_round_trip:
  assumes "conn s = Some k"
    and "jm (SetRequestId (go_int (requestID s + 1)) payload) = Inr payloadJson"
    and "proto_Marshal L \<lparr>ProtocolVersion = Some CASTV2_1_0, SourceId = Some sourceID,
       DestinationId = Some destinationID, Namespace = Some namespace,
       PayloadType = Some STRING, PayloadUtf8 = Some payloadJson\<rparr> = Inr data"
    and "accepts k (4 + length data)"
    and "data \<noteq> []" and "length data < 2 ^ 32"
    and "proto_Unmarshal L data = Inr \<lparr>ProtocolVersion = Some CASTV2_1_0, SourceId = Some sourceID,
       DestinationId = Some destinationID, Namespace = Some namespace,
       PayloadType = Some STRING, PayloadUtf8 = Some payloadJson\<rparr>"
  shows "\<exists>s'. Send jm L payload sourceID destinationID namespace s
        = Done (s', SetRequestId (go_int (requestID s + 1)) payload, None)
     \<and> written s' = written s @ put_uint32 (of_nat (length data)) @ data
     \<and> length (put_uint32 (of_nat (length data))) = 4
     \<and> unat (get_uint32 (put_uint32 (of_nat (length data)))) = length data
     \<and> decode_frame L (arriving (drop (length (written s)) (written s')) @ rest)
        = Some (\<lparr>ProtocolVersion = Some CASTV2_1_0, SourceId = Some sourceID,
             DestinationId = Some destinationID, Namespace = Some namespace,
             PayloadType = Some STRING, PayloadUtf8 = Some payloadJson\<rparr>, rest)"
proof -
  from Send_success [of s k jm payload payloadJson L sourceID destinationID namespace data] assms(1-4)
  obtain s' k' where s': "Send jm L payload sourceID destinationID namespace s
        = Done (s', SetRequestId (go_int (requestID s + 1)) payload, None)"
    "conn s' = Some k'" "outbound k' = outbound k @ put_uint32 (of_nat (length data)) @ data"
    by auto
  have len: "unat (of_nat (length data) :: 32 word) = length data" "(of_nat (length data) :: 32 word) \<noteq> 0"
    using assms(5,6) by (simp_all add: unat_length length_word_nonzero)
  have wr: "written s' = written s @ put_uint32 (of_nat (length data)) @ data"
    using s' assms(1) by (simp add: written_def)
  have dec: "decode_frame L (arriving (put_uint32 (of_nat (length data)) @ data) @ rest)
        = Some (\<lparr>ProtocolVersion = Some CASTV2_1_0, SourceId = Some sourceID,
             DestinationId = Some destinationID, Namespace = Some namespace,
             PayloadType = Some STRING, PayloadUtf8 = Some payloadJson\<rparr>, rest)"
    using len assms(7) ReadFull_bytes [of data rest]
    by (simp add: decode_frame_def binary_Read_uint32_prefix)
  show ?thesis
    using s'(1) wr dec len by (simp add: get_put_uint32)
qed

theorem Send_frame_round_trip_witness:
  "\<exists>s'. Send toy_json_Marshal toy_libs GetStatusHeader ''sender-0'' ''receiver-0'' ''ns'' started
        = Done (s', \<lparr>Type = ''GET_STATUS'', RequestId = 1\<rparr>, None)
     \<and> written s' = [0, 0, 0, 36, 8, 115, 101, 110, 100, 101, 114, 45, 48, 10, 114, 101, 99, 101, 105,
          118, 101, 114, 45, 48, 2, 110, 115, 12, 71, 69, 84, 95, 83, 84, 65, 84, 85, 83, 35, 105]
     \<and> decode_frame toy_libs (arriving (written s'))
        = Some (\<lparr>ProtocolVersion = Some CASTV2_1_0, SourceId = Some ''sender-0'',
             DestinationId = Some ''receiver-0'', Namespace = Some ''ns'',
             PayloadType = Some STRING, PayloadUtf8 = Some ''GET_STATUS#i''\<rparr>, [])"
proof -
  have h1: "conn started = Some open_socket"
    and h2: "toy_json_Marshal (SetRequestId (go_int (requestID started + 1)) GetStatusHeader)
      = Inr ''GET_STATUS#i''"
    and h3: "proto_Marshal toy_libs \<lparr>ProtocolVersion = Some CASTV2_1_0, SourceId = Some ''sender-0'',
       DestinationId = Some ''receiver-0'', Namespace = Some ''ns'',
       PayloadType = Some STRING, PayloadUtf8 = Some ''GET_STATUS#i''\<rparr>
      = Inr [8, 115, 101, 110, 100, 101, 114, 45, 48, 10, 114, 101, 99, 101, 105,
          118, 101, 114, 45, 48, 2, 110, 115, 12, 71, 69, 84, 95, 83, 84, 65, 84, 85, 83, 35, 105]"
    and h7: "proto_Unmarshal toy_libs [8, 115, 101, 110, 100, 101, 114, 45, 48, 10, 114, 101, 99, 101, 105,
          118, 101, 114, 45, 48, 2, 110, 115, 12, 71, 69, 84, 95, 83, 84, 65, 84, 85, 83, 35, 105]
      = Inr \<lparr>ProtocolVersion = Some CASTV2_1_0, SourceId = Some ''sender-0'',
       DestinationId = Some ''receiver-0'', Namespace = Some ''ns'',
       PayloadType = Some STRING, PayloadUtf8 = Some ''GET_STATUS#i''\<rparr>"
    by code_simp+
  have h4: "accepts open_socket (4 + length [8, 115, 101, 110, 100, 101, 114, 45, 48, 10, 114, 101, 99, 101, 105,
          118, 101, 114, 45, 48, 2, 110, 115, 12, 71, 69, 84, 95, 83, 84, 65, 84, 85, 83, 35, 105 :: byte])"
    by (simp add: accepts_def open_socket_def)
  have h5: "[8, 115, 101, 110, 100, 101, 114, 45, 48, 10, 114, 101, 99, 101, 105,
          118, 101, 114, 45, 48, 2, 110, 115, 12, 71, 69, 84, 95, 83, 84, 65, 84, 85, 83, 35, 105 :: byte] \<noteq> []"
    and h6: "length [8, 115, 101, 110, 100, 101, 114, 45, 48, 10, 114, 101, 99, 101, 105,
          118, 101, 114, 45, 48, 2, 110, 115, 12, 71, 69, 84, 95, 83, 84, 65, 84, 85, 83, 35, 105 :: byte] < 2 ^ 32"
    by simp_all
  have w: "written started = []" "put_uint32 36 = [0, 0, 0, 36]"
    "SetRequestId (go_int (requestID started + 1)) GetStatusHeader = \<lparr>Type = ''GET_STATUS'', RequestId = 1\<rparr>"
    by code_simp+
  from Send_frame_round_trip [where jm = toy_json_Marshal and payload = GetStatusHeader and rest = "[]",
      OF h1 h2 h3 h4 h5 h6 h7] w
  show ?thesis by auto
qed

subsection \<open>SendAndWait: the order of sending and registering\<close>

text \<open>
  C1. The claim: the slot of a request id is registered before, or together with, the
  sending of the frame that carries the id. The code: \<open>SendAndWait\<close> calls \<open>Send\<close> first
  (line 84) and registers the slot afterwards (line 91). When \<open>Send\<close> has returned, the
  frame with id 1 is on the wire and no slot is registered under 1. A response to id 1
  that the receive loop handles at that moment finds no slot and is dropped, and the
  caller then waits until its deadline; the same response, handled after the
  registration, is delivered.
\<close>

theorem SendAndWait_sends_before_registering:
  "map_option written (state_after_Send
      (Send toy_json_Marshal toy_libs GetStatusHeader ''sender-0'' ''receiver-0'' ''ns'' started))
     = Some [0, 0, 0, 36, 8, 115, 101, 110, 100, 101, 114, 45, 48, 10, 114, 101, 99, 101, 105,
          118, 101, 114, 45, 48, 2, 110, 115, 12, 71, 69, 84, 95, 83, 84, 65, 84, 85, 83, 35, 105]
   \<and> map_option (slot 1) (state_after_Send
      (Send toy_json_Marshal toy_libs GetStatusHeader ''sender-0'' ''receiver-0'' ''ns'' started))
     = Some None
   \<and> result_of (SendAndWait toy_json_Marshal toy_libs with_deadline GetStatusHeader
        ''sender-0'' ''receiver-0'' ''ns''
        [Inbound (frame_from_receiver ''RECEIVER_STATUS#i'') no_headers] [Cancel] False started)
     = Some (Inl (Error ''context deadline exceeded''))
   \<and> result_of (SendAndWait toy_json_Marshal toy_libs with_deadline GetStatusHeader
        ''sender-0'' ''receiver-0'' ''ns''
        [] [Inbound (frame_from_receiver ''RECEIVER_STATUS#i'') no_headers, Cancel] False started)
     = Some (Inr (frame_from_receiver ''RECEIVER_STATUS#i''))"
  by code_simp

subsection \<open>SendAndWait: correlation\<close>

text \<open>
  C4. The claim: an envelope that \<open>SendAndWait\<close> returns carries the request id of the
  call. The code registers the slot under the value the global counter has at line 91,
  not under the id that \<open>Send\<close> gave to this call. Another caller's \<open>Send\<close> between
  line 84 and line 91 moves the counter to 2: the call, whose own id is 1, registers its
  slot under 2 and returns the response to the other request. A PING answered between
  the two lines does the same: the response to id 1 is then dropped, and a frame with
  id 2 is returned. Where nobody calls \<open>Send\<close> between the two lines, the envelope
  returned has the id of the call (\<open>SendAndWait_undisturbed\<close>, below).
\<close>

theorem SendAndWait_returns_other_response:
  "result_of (SendAndWait toy_json_Marshal toy_libs with_deadline GetStatusHeader
        ''sender-0'' ''receiver-0'' ''ns''
        [OtherSend LaunchHeader ''sender-0'' ''receiver-0'' ''ns'']
        [Inbound (frame_from_receiver ''RECEIVER_STATUS#ii'') no_headers] False started)
     = Some (Inr (frame_from_receiver ''RECEIVER_STATUS#ii''))
   \<and> map_option RequestId (payload_of (SendAndWait toy_json_Marshal toy_libs with_deadline GetStatusHeader
        ''sender-0'' ''receiver-0'' ''ns''
        [OtherSend LaunchHeader ''sender-0'' ''receiver-0'' ''ns'']
        [Inbound (frame_from_receiver ''RECEIVER_STATUS#ii'') no_headers] False started))
     = Some 1
   \<and> jsonparser_GetInt toy_libs ''RECEIVER_STATUS#ii'' ''requestId'' = (2, None)
   \<and> result_of (SendAndWait toy_json_Marshal toy_libs with_deadline GetStatusHeader
        ''sender-0'' ''receiver-0'' ''ns''
        [Inbound (frame_from_receiver ''PING'') no_headers]
        [Inbound (frame_from_receiver ''RECEIVER_STATUS#i'') no_headers,
         Inbound (frame_from_receiver ''RECEIVER_STATUS#ii'') no_headers] False started)
     = Some (Inr (frame_from_receiver ''RECEIVER_STATUS#ii''))"
  by code_simp

subsection \<open>SendAndWait: the slot at the return\<close>

text \<open>
  C7. The claim: a cancelled call returns the context's error, and on every return the
  slot of the call is removed. The code: the deferred function deletes the key that the
  global counter holds when it runs. A PING that the receive loop answers while the call
  waits moves the counter from 1 to 2; the call, cancelled, returns the context's error,
  the deferred function deletes key 2, and the slot of id 1 stays in the table. The same
  happens when the response arrives after the PING. Without the PING the slot is removed,
  as it is whenever nobody calls \<open>Send\<close> during the call (\<open>SendAndWait_undisturbed\<close>,
  below).
\<close>

theorem SendAndWait_leaves_slot_after_PING:
  "result_of (SendAndWait toy_json_Marshal toy_libs with_deadline GetStatusHeader
        ''sender-0'' ''receiver-0'' ''ns''
        [] [Inbound (frame_from_receiver ''PING'') no_headers, Cancel] False started)
     = Some (Inl (Error ''context deadline exceeded''))
   \<and> map_option (slot 1) (state_of (SendAndWait toy_json_Marshal toy_libs with_deadline GetStatusHeader
        ''sender-0'' ''receiver-0'' ''ns''
        [] [Inbound (frame_from_receiver ''PING'') no_headers, Cancel] False started))
     = Some (Some [])
   \<and> result_of (SendAndWait toy_json_Marshal toy_libs with_deadline GetStatusHeader
        ''sender-0'' ''receiver-0'' ''ns''
        [] [Inbound (frame_from_receiver ''PING'') no_headers,
            Inbound (frame_from_receiver ''RECEIVER_STATUS#i'') no_headers] False started)
     = Some (Inr (frame_from_receiver ''RECEIVER_STATUS#i''))
   \<and> map_option (slot 1) (state_of (SendAndWait toy_json_Marshal toy_libs with_deadline GetStatusHeader
        ''sender-0'' ''receiver-0'' ''ns''
        [] [Inbound (frame_from_receiver ''PING'') no_headers,
            Inbound (frame_from_receiver ''RECEIVER_STATUS#i'') no_headers] False started))
     = Some (Some [])
   \<and> map_option (slot 1) (state_of (SendAndWait toy_json_Marshal toy_libs with_deadline GetStatusHeader
        ''sender-0'' ''receiver-0'' ''ns'' [] [Cancel] False started))
     = Some None"
  by code_simp

subsection \<open>SendAndWait when nobody else sends\<close>

lemma handleMessage_Done_cases:
  assumes "handleMessage L message headers s = Done s'"
  obtains
    (no_type) js err where "PayloadUtf8 message = Some js"
      "jsonparser_GetString L js ''type'' = Inl err"
      "s' = log ''could not find type key in response message %q: %s'' s"
  | (ping) js src dst ns s1 pong err where "PayloadUtf8 message = Some js"
      "jsonparser_GetString L js ''type'' = Inr ''PING''"
      "Send (json_Marshal_PayloadHeader L) L (PongHeader s) src dst ns s = Done (s1, pong, err)"
      "s' = (case err of None \<Rightarrow> s1\<lparr>PongHeader := pong\<rparr>
             | Some e \<Rightarrow> log ''unable to respond to PING: %v'' (s1\<lparr>PongHeader := pong\<rparr>))"
  | (dropped) js ty r err where "PayloadUtf8 message = Some js"
      "jsonparser_GetString L js ''type'' = Inr ty" "ty \<noteq> ''PING''"
      "jsonparser_GetInt L js ''requestId'' = (r, err)"
      "resultChanMap s (go_int r) = None"
      "s' = (case err of None \<Rightarrow> s
             | Some e \<Rightarrow> log ''unable to find requestId in proto payload %s: %v'' s)"
  | (delivered) js ty r err ch where "PayloadUtf8 message = Some js"
      "jsonparser_GetString L js ''type'' = Inr ty" "ty \<noteq> ''PING''"
      "jsonparser_GetInt L js ''requestId'' = (r, err)"
      "resultChanMap s (go_int r) = Some ch"
      "chan_send ch message (case err of None \<Rightarrow> s
             | Some e \<Rightarrow> log ''unable to find requestId in proto payload %s: %v'' s) = Done s'"
proof (cases "PayloadUtf8 message")
  case None
  with assms show ?thesis by (simp add: handleMessage_def)
next
  case (Some js)
  show ?thesis
  proof (cases "jsonparser_GetString L js ''type''")
    case (Inl err)
    with assms Some no_type show ?thesis by (simp add: handleMessage_def)
  next
    case (Inr ty)
    show ?thesis
    proof (cases "ty = ''PING''")
      case True
      with assms Some Inr obtain src dst ns where f: "SourceId message = Some src"
        "DestinationId message = Some dst" "Namespace message = Some ns"
        by (auto simp: handleMessage_def split: option.splits)
      with assms Some Inr True obtain s1 pong err where
        "Send (json_Marshal_PayloadHeader L) L (PongHeader s) src dst ns s = Done (s1, pong, err)"
        "s' = (case err of None \<Rightarrow> s1\<lparr>PongHeader := pong\<rparr>
                      | Some e \<Rightarrow> log ''unable to respond to PING: %v'' (s1\<lparr>PongHeader := pong\<rparr>))"
        by (auto simp: handleMessage_def Let_def split: outcome.splits)
      with Some Inr True ping show ?thesis by blast
    next
      case False
      obtain r err where g: "jsonparser_GetInt L js ''requestId'' = (r, err)"
        by (cases "jsonparser_GetInt L js ''requestId''") auto
      define s1 where "s1 = (case err of None \<Rightarrow> s
          | Some e \<Rightarrow> log ''unable to find requestId in proto payload %s: %v'' s)"
      have m: "resultChanMap s1 = resultChanMap s"
        by (simp add: s1_def split: option.splits)
      from assms Some Inr False g have h: "(case resultChanMap s1 (go_int r) of
          Some resultChan \<Rightarrow> chan_send resultChan message s1 | None \<Rightarrow> Done s1) = Done s'"
        unfolding s1_def by (simp add: handleMessage_def Let_def)
      show ?thesis
      proof (cases "resultChanMap s (go_int r)")
        case None
        with h m have "s' = s1" by simp
        with Some Inr False g None dropped show ?thesis by (simp add: s1_def)
      next
        case (Some ch)
        with h m have "chan_send ch message s1 = Done s'" by simp
        with \<open>PayloadUtf8 message = Some js\<close> Inr False g Some delivered show ?thesis
          by (simp add: s1_def)
      qed
    qed
  qed
qed

lemma chan_send_Done:
  "chan_send ch message s = Done s' \<Longrightarrow>
   chans s ch = [] \<and> s' = s\<lparr>chans := (chans s)(ch := [message])\<rparr>"
  by (cases "chans s ch") (auto simp: chan_send_def split: if_splits)

lemma handleMessage_table:
  assumes "handleMessage L message headers s = Done s'"
  shows "resultChanMap s' = resultChanMap s \<and> next_chan s' = next_chan s"
  using assms
proof (cases rule: handleMessage_Done_cases)
  case (ping js src dst ns s1 pong err)
  from Send_unchanged [OF ping(3)] ping(4) show ?thesis
    by (cases err) simp_all
next
  case (delivered js ty r err ch)
  from chan_send_Done [OF delivered(6)] show ?thesis
    by (cases err) simp_all
qed (simp_all split: option.splits)

lemma handleMessage_quiet:
  assumes "handleMessage L message headers s = Done s'"
    and "quiet L (Inbound message headers)"
  shows "requestID s' = requestID s"
  using assms(1)
proof (cases rule: handleMessage_Done_cases)
  case (ping js src dst ns s1 pong err)
  with assms(2) show ?thesis by simp
next
  case (delivered js ty r err ch)
  from chan_send_Done [OF delivered(6)] show ?thesis
    by (cases err) simp_all
qed (simp_all split: option.splits)

lemma run_event_table:
  assumes "run_event jm L ev ctx s = Done (ctx', s')"
  shows "resultChanMap s' = resultChanMap s \<and> next_chan s' = next_chan s"
proof (cases ev)
  case (Inbound message headers)
  with assms show ?thesis
    by (auto split: outcome.splits dest: handleMessage_table)
next
  case Cancel
  with assms show ?thesis by auto
next
  case (OtherSend payload a b c)
  with assms obtain payload' err where "Send jm L payload a b c s = Done (s', payload', err)"
    by (auto split: outcome.splits)
  from Send_unchanged [OF this] show ?thesis by simp
qed

lemma run_event_quiet:
  assumes "run_event jm L ev ctx s = Done (ctx', s')" and "quiet L ev"
  shows "requestID s' = requestID s"
proof (cases ev)
  case (Inbound message headers)
  with assms show ?thesis
    by (auto split: outcome.splits dest: handleMessage_quiet)
qed (use assms in auto)

lemma run_events_table:
  "run_events jm L evs ctx s = Done (ctx', s') \<Longrightarrow>
   resultChanMap s' = resultChanMap s \<and> next_chan s' = next_chan s"
proof (induction evs arbitrary: ctx s)
  case (Cons ev evs)
  from Cons.prems obtain ctx1 s1 where e: "run_event jm L ev ctx s = Done (ctx1, s1)"
    and r: "run_events jm L evs ctx1 s1 = Done (ctx', s')"
    by (auto split: outcome.splits)
  from run_event_table [OF e] Cons.IH [OF r] show ?case by simp
qed simp

lemma run_events_quiet:
  "run_events jm L evs ctx s = Done (ctx', s') \<Longrightarrow> \<forall>ev \<in> set evs. quiet L ev \<Longrightarrow>
   requestID s' = requestID s"
proof (induction evs arbitrary: ctx s)
  case (Cons ev evs)
  from Cons.prems(1) obtain ctx1 s1 where e: "run_event jm L ev ctx s = Done (ctx1, s1)"
    and r: "run_events jm L evs ctx1 s1 = Done (ctx', s')"
    by (auto split: outcome.splits)
  from run_event_quiet [OF e] Cons.IH [OF r] Cons.prems(2) show ?case by simp
qed simp

lemma select_Some:
  assumes "select pick ch ctx s = Some (res, s')"
  shows "resultChanMap s' = resultChanMap s \<and> next_chan s' = next_chan s
    \<and> requestID s' = requestID s
    \<and> (case res of Inl err \<Rightarrow> True | Inr m \<Rightarrow> m \<in> set (chans s ch))"
  using assms by (auto simp: select_def split: list.splits if_splits)

text \<open>The table after the wait is the table before it, without the key that the counter
  holds at the return.\<close>

lemma wait_table:
  "wait jm L pick ch evs ctx s = Done (res, s') \<Longrightarrow>
   resultChanMap s' = (resultChanMap s)(requestID s' := None) \<and> next_chan s' = next_chan s"
proof (induction evs arbitrary: ctx s)
  case Nil
  then obtain s1 where "select pick ch ctx s = Some (res, s1)" "s' = deferred_delete s1"
    by (auto split: option.splits)
  with select_Some [of pick ch ctx s res s1] show ?case
    by (simp add: deferred_delete_def)
next
  case (Cons ev evs)
  show ?case
  proof (cases "select pick ch ctx s")
    case (Some a)
    with Cons.prems obtain s1 where "select pick ch ctx s = Some (res, s1)" "s' = deferred_delete s1"
      by (cases a) auto
    with select_Some [of pick ch ctx s res s1] show ?thesis
      by (simp add: deferred_delete_def)
  next
    case None
    with Cons.prems obtain ctx1 s1 where e: "run_event jm L ev ctx s = Done (ctx1, s1)"
      and w: "wait jm L pick ch evs ctx1 s1 = Done (res, s')"
      by (auto split: outcome.splits)
    from run_event_table [OF e] Cons.IH [OF w] show ?thesis by simp
  qed
qed

lemma wait_quiet:
  "wait jm L pick ch evs ctx s = Done (res, s') \<Longrightarrow> \<forall>ev \<in> set evs. quiet L ev \<Longrightarrow>
   requestID s' = requestID s"
proof (induction evs arbitrary: ctx s)
  case Nil
  then obtain s1 where "select pick ch ctx s = Some (res, s1)" "s' = deferred_delete s1"
    by (auto split: option.splits)
  with select_Some [of pick ch ctx s res s1] show ?case
    by (simp add: deferred_delete_def)
next
  case (Cons ev evs)
  show ?case
  proof (cases "select pick ch ctx s")
    case (Some a)
    with Cons.prems(1) obtain s1 where "select pick ch ctx s = Some (res, s1)" "s' = deferred_delete s1"
      by (cases a) auto
    with select_Some [of pick ch ctx s res s1] show ?thesis
      by (simp add: deferred_delete_def)
  next
    case None
    with Cons.prems(1) obtain ctx1 s1 where e: "run_event jm L ev ctx s = Done (ctx1, s1)"
      and w: "wait jm L pick ch evs ctx1 s1 = Done (res, s')"
      by (auto split: outcome.splits)
    from run_event_quiet [OF e] Cons.IH [OF w] Cons.prems(2) show ?thesis by simp
  qed
qed

lemma handleMessage_holds_key:
  assumes "handleMessage L message headers s = Done s'" and "holds_key L ch k s"
  shows "holds_key L ch k s'"
  using assms(1)
proof (cases rule: handleMessage_Done_cases)
  case (no_type js err)
  with assms(2) show ?thesis by (simp add: holds_key_def)
next
  case (ping js src dst ns s1 pong err)
  from Send_unchanged [OF ping(3)] ping(4) assms(2) show ?thesis
    by (cases err) (simp_all add: holds_key_def)
next
  case (dropped js ty r err)
  with assms(2) show ?thesis
    by (cases err) (simp_all add: holds_key_def)
next
  case (delivered js ty r err ch')
  from chan_send_Done [OF delivered(6)]
  have s': "resultChanMap s' = resultChanMap s" "chans s' = (chans s)(ch' := [message])"
    by (cases err; simp)+
  show ?thesis
  proof (cases "ch' = ch")
    case True
    with delivered(5) assms(2) have "go_int r = k" by (simp add: holds_key_def)
    with delivered(1,4) have "request_key L message = Some k"
      by (simp add: request_key_def)
    with s' True assms(2) show ?thesis by (simp add: holds_key_def)
  next
    case False
    with s' assms(2) show ?thesis by (simp add: holds_key_def)
  qed
qed

lemma run_event_holds_key:
  assumes "run_event jm L ev ctx s = Done (ctx', s')" and "holds_key L ch k s"
  shows "holds_key L ch k s'"
proof (cases ev)
  case (Inbound message headers)
  with assms show ?thesis
    by (auto split: outcome.splits dest: handleMessage_holds_key)
next
  case Cancel
  with assms show ?thesis by auto
next
  case (OtherSend payload a b c)
  with assms(1) obtain payload' err where "Send jm L payload a b c s = Done (s', payload', err)"
    by (auto split: outcome.splits)
  from Send_unchanged [OF this] assms(2) show ?thesis by (simp add: holds_key_def)
qed

lemma wait_holds_key:
  "wait jm L pick ch evs ctx s = Done (Inr m, s') \<Longrightarrow> holds_key L ch k s \<Longrightarrow>
   request_key L m = Some k"
proof (induction evs arbitrary: ctx s)
  case Nil
  then obtain s1 where "select pick ch ctx s = Some (Inr m, s1)"
    by (auto split: option.splits)
  with select_Some [of pick ch ctx s "Inr m" s1] Nil.prems(2) show ?case
    by (simp add: holds_key_def)
next
  case (Cons ev evs)
  show ?case
  proof (cases "select pick ch ctx s")
    case (Some a)
    with Cons.prems(1) obtain s1 where "select pick ch ctx s = Some (Inr m, s1)"
      by (cases a) auto
    with select_Some [of pick ch ctx s "Inr m" s1] Cons.prems(2) show ?thesis
      by (simp add: holds_key_def)
  next
    case None
    with Cons.prems(1) obtain ctx1 s1 where e: "run_event jm L ev ctx s = Done (ctx1, s1)"
      and w: "wait jm L pick ch evs ctx1 s1 = Done (Inr m, s')"
      by (auto split: outcome.splits)
    from Cons.IH [OF w run_event_holds_key [OF e Cons.prems(2)]] show ?thesis .
  qed
qed

lemma register_slot_holds_key:
  assumes "table_wf s" and "register_slot s = (ch, s')"
  shows "holds_key L ch (requestID s) s'"
    and "resultChanMap s' = (resultChanMap s)(requestID s \<mapsto> ch)"
    and "requestID s' = requestID s"
proof -
  from assms(2) have ch: "ch = next_chan s"
    and s': "s' = s\<lparr>chans := (chans s)(next_chan s := []), next_chan := Suc (next_chan s),
        resultChanMap := (resultChanMap s)(requestID s \<mapsto> next_chan s)\<rparr>"
    by (auto simp: register_slot_def Let_def)
  have "r = requestID s" if "resultChanMap s' r = Some ch" for r
  proof (rule ccontr)
    assume "r \<noteq> requestID s"
    with that s' ch have "resultChanMap s r = Some (next_chan s)" by simp
    with assms(1) show False by (auto simp: table_wf_def)
  qed
  moreover have "chans s' ch = []" using s' ch by simp
  ultimately show "holds_key L ch (requestID s) s'"
    by (simp add: holds_key_def)
  show "resultChanMap s' = (resultChanMap s)(requestID s \<mapsto> ch)"
    and "requestID s' = requestID s"
    using s' ch by simp_all
qed

text \<open>
  Where nobody calls \<open>Send\<close> between line 84 and line 91, the call's slot is registered
  under the id that \<open>Send\<close> gave it, and an envelope that the call returns was looked up
  under that id. Where, besides, nobody calls \<open>Send\<close> while the call waits, the table after
  the call is the table before it without that id.
\<close>

lemma SendAndWait_undisturbed:
  assumes sw: "SendAndWait jm L ctx payload a b c before during pick s = Done (res, payload', s')"
    and sent: "Send jm L payload a b c s = Done (s1, p1, None)"
    and before: "\<forall>ev \<in> set before. quiet L ev"
  shows "table_wf s \<Longrightarrow> res = Inr m \<Longrightarrow> request_key L m = Some (RequestId payload')"
    and "\<forall>ev \<in> set during. quiet L ev \<Longrightarrow>
      resultChanMap s' = (resultChanMap s)(RequestId payload' := None)"
proof -
  from sw sent obtain ctx1 s2 where ev: "run_events jm L before ctx s1 = Done (ctx1, s2)"
    by (auto simp: SendAndWait_def split: outcome.splits)
  obtain ch s3 where reg: "register_slot s2 = (ch, s3)"
    by (cases "register_slot s2") auto
  from sw sent ev reg have w: "wait jm L pick ch during ctx1 s3 = Done (res, s')"
    and p: "payload' = p1"
    by (auto simp: SendAndWait_def split: outcome.splits)
  note u = Send_unchanged [OF sent]
  have id: "RequestId payload' = requestID s1"
    using u(7,9) p by (simp add: SetRequestId_def)
  have k: "requestID s2 = RequestId payload'"
    using run_events_quiet [OF ev before] id by simp
  have t2: "resultChanMap s2 = resultChanMap s" "next_chan s2 = next_chan s"
    using run_events_table [OF ev] u by simp_all
  {
    assume "table_wf s" and "res = Inr m"
    with t2 have "table_wf s2" by (simp add: table_wf_def)
    from register_slot_holds_key(1) [OF this reg, of L] k
    have "holds_key L ch (RequestId payload') s3" by simp
    with w \<open>res = Inr m\<close> show "request_key L m = Some (RequestId payload')"
      by (auto dest: wait_holds_key)
  }
  {
    assume during: "\<forall>ev \<in> set during. quiet L ev"
    have t3: "resultChanMap s3 = (resultChanMap s2)(requestID s2 \<mapsto> ch)" "requestID s3 = requestID s2"
      using reg by (auto simp: register_slot_def Let_def)
    from wait_quiet [OF w during] t3 k have "requestID s' = RequestId payload'" by simp
    with wait_table [OF w] t3 t2 k
    show "resultChanMap s' = (resultChanMap s)(RequestId payload' := None)"
      by simp
  }
qed

lemma SendAndWait_undisturbed_example:
  "result_of (SendAndWait toy_json_Marshal toy_libs with_deadline GetStatusHeader
        ''sender-0'' ''receiver-0'' ''ns'' []
        [Inbound (frame_from_receiver ''MEDIA_STATUS#ii'') no_headers,
         Inbound (frame_from_receiver ''RECEIVER_STATUS#i'') no_headers] False started)
     = Some (Inr (frame_from_receiver ''RECEIVER_STATUS#i''))
   \<and> map_option (slot 1) (state_of (SendAndWait toy_json_Marshal toy_libs with_deadline GetStatusHeader
        ''sender-0'' ''receiver-0'' ''ns'' []
        [Inbound (frame_from_receiver ''MEDIA_STATUS#ii'') no_headers,
         Inbound (frame_from_receiver ''RECEIVER_STATUS#i'') no_headers] False started))
     = Some None"
  by code_simp

lemma table_wf_NewConnection: "table_wf (NewConnection dbg)"
  by (simp add: table_wf_def NewConnection_def)

lemma SendAndWait_table_wf:
  assumes wf: "table_wf s"
    and sw: "SendAndWait jm L ctx payload a b c before during pick s = Done (res, payload', s')"
  shows "table_wf s'"
proof -
  from sw obtain s1 p1 err where sent: "Send jm L payload a b c s = Done (s1, p1, err)"
    by (auto simp: SendAndWait_def split: outcome.splits)
  note u = Send_unchanged [OF sent]
  show ?thesis
  proof (cases err)
    case (Some e)
    with sw sent have "s' = s1" by (simp add: SendAndWait_def)
    with u wf show ?thesis by (simp add: table_wf_def)
  next
    case None
    with sw sent obtain ctx1 s2 where ev: "run_events jm L before ctx s1 = Done (ctx1, s2)"
      by (auto simp: SendAndWait_def split: outcome.splits)
    obtain ch s3 where reg: "register_slot s2 = (ch, s3)"
      by (cases "register_slot s2") auto
    from sw sent None ev reg have w: "wait jm L pick ch during ctx1 s3 = Done (res, s')"
      by (auto simp: SendAndWait_def split: outcome.splits)
    from run_events_table [OF ev] u wf have "table_wf s2"
      by (simp add: table_wf_def)
    with reg have "table_wf s3"
      by (auto simp: register_slot_def Let_def table_wf_def less_Suc_eq split: if_splits)
    with wait_table [OF w] show ?thesis
      by (auto simp: table_wf_def split: if_splits)
  qed
qed

subsection \<open>Overlapping calls\<close>

lemma Send_eq_rest:
  "Send jm L payload a b c s = Send_rest jm L payload a b c (s\<lparr>requestID := go_int (requestID s + 1)\<rparr>)"
  unfolding Send_def Send_rest_def Let_def ..

lemma Send_racing_alone:
  "Send_racing jmo L ctx jm payload a b c [] [] s =
     (case Send jm L payload a b c s of Done r \<Rightarrow> Done (ctx, r) | Panic \<Rightarrow> Panic | Blocked \<Rightarrow> Blocked)"
  by (simp add: Send_racing_def Send_eq_rest)

lemma handleMessage_racing_alone:
  "handleMessage_racing jmo L message headers [] [] s = handleMessage L message headers s"
  by (auto simp: handleMessage_racing_def handleMessage_def Send_racing_alone Let_def
      split: option.splits sum.splits outcome.splits)

lemma SendAndWait_racing_alone:
  "SendAndWait_racing jm L ctx payload a b c [] [] before during pick s
     = SendAndWait jm L ctx payload a b c before during pick s"
  by (auto simp: SendAndWait_racing_def SendAndWait_def Send_racing_alone
      split: outcome.splits option.splits prod.splits)

lemma Send_rest_unchanged:
  assumes "Send_rest jm L payload a b c s = Done (s', payload', err)"
  shows "resultChanMap s' = resultChanMap s" "chans s' = chans s" "next_chan s' = next_chan s"
    "connected s' = connected s" "debug s' = debug s" "PongHeader s' = PongHeader s"
    "requestID s' = requestID s" "issued s' = issued s @ [requestID s]"
    "payload' = SetRequestId (requestID s) payload"
  using assms
  by (auto simp: Send_rest_def Let_def split: sum.splits option.splits prod.splits)

subsection \<open>Request ids\<close>






text \<open>The steps of a call that others come into.\<close>

lemma Send_racing_steps:
  assumes "Send_racing jmo L ctx jm payload a b c during107 before108 s = Done (ctx', s', payload', err)"
  obtains ctx1 sa sc where "run_events jmo L during107 ctx s = Done (ctx1, sa)"
    "run_events jmo L before108 ctx1 (sa\<lparr>requestID := go_int (requestID s + 1)\<rparr>) = Done (ctx', sc)"
    "Send_rest jm L payload a b c sc = Done (s', payload', err)"
  using assms
  by (auto simp: Send_racing_def split: outcome.splits)


lemma go_int_id: "- (2 ^ 63) \<le> x \<Longrightarrow> x \<le> max_int \<Longrightarrow> go_int x = x"
  by (simp add: go_int_def max_int_def)


lemma ids_ok_log [simp]: "ids_ok lo d (log m s) = ids_ok lo d s"
  by (simp add: ids_ok_def)

lemma ids_ok_updates [simp]:
  "ids_ok lo d (s\<lparr>PongHeader := p\<rparr>) = ids_ok lo d s"
  "ids_ok lo d (s\<lparr>chans := c\<rparr>) = ids_ok lo d s"
  "ids_ok lo d (s\<lparr>conn := k\<rparr>) = ids_ok lo d s"
  "ids_ok lo d (s\<lparr>connected := b\<rparr>) = ids_ok lo d s"
  "ids_ok lo d (s\<lparr>debug := b\<rparr>) = ids_ok lo d s"
  "ids_ok lo d (s\<lparr>next_chan := n\<rparr>) = ids_ok lo d s"
  by (simp_all add: ids_ok_def)










lemma handleMessage_racing_Done_cases:
  assumes "handleMessage_racing jmo L message headers during107 before108 s = Done s'"
  obtains
    (ping) src dst ns ctx s1 pong err where
      "Send_racing jmo L background (json_Marshal_PayloadHeader L) (PongHeader s) src dst ns
         during107 before108 s = Done (ctx, s1, pong, err)"
      "s' = (case err of None \<Rightarrow> s1\<lparr>PongHeader := pong\<rparr>
             | Some e \<Rightarrow> log ''unable to respond to PING: %v'' (s1\<lparr>PongHeader := pong\<rparr>))"
  | (no_ping) "handleMessage L message headers s = Done s'"
proof (cases "PayloadUtf8 message")
  case None
  with assms show ?thesis by (simp add: handleMessage_racing_def)
next
  case (Some js)
  show ?thesis
  proof (cases "jsonparser_GetString L js ''type''")
    case (Inl err)
    with assms Some no_ping show ?thesis
      by (simp add: handleMessage_racing_def handleMessage_def)
  next
    case (Inr ty)
    show ?thesis
    proof (cases "ty = ''PING''")
      case True
      with assms Some Inr obtain src dst ns where f: "SourceId message = Some src"
        "DestinationId message = Some dst" "Namespace message = Some ns"
        by (auto simp: handleMessage_racing_def split: option.splits)
      with assms Some Inr True obtain ctx s1 pong err where
        "Send_racing jmo L background (json_Marshal_PayloadHeader L) (PongHeader s) src dst ns
           during107 before108 s = Done (ctx, s1, pong, err)"
        "s' = (case err of None \<Rightarrow> s1\<lparr>PongHeader := pong\<rparr>
               | Some e \<Rightarrow> log ''unable to respond to PING: %v'' (s1\<lparr>PongHeader := pong\<rparr>))"
        by (auto simp: handleMessage_racing_def Let_def split: outcome.splits)
      with ping show ?thesis by blast
    next
      case False
      with assms Some Inr have "handleMessage L message headers s = Done s'"
        by (simp add: handleMessage_racing_def handleMessage_def)
      with no_ping show ?thesis .
    qed
  qed
qed



lemma SendAndWait_racing_steps:
  assumes "SendAndWait_racing jm L ctx payload a b c during107 before108 before during pick s
      = Done (res, payload', s')"
  obtains
    (failed) ctx0 err where
      "Send_racing jm L ctx jm payload a b c during107 before108 s = Done (ctx0, s', payload', Some err)"
  | (sent) ctx0 s1 ctx1 s2 ch s3 where
      "Send_racing jm L ctx jm payload a b c during107 before108 s = Done (ctx0, s1, payload', None)"
      "run_events jm L before ctx0 s1 = Done (ctx1, s2)"
      "register_slot s2 = (ch, s3)"
      "wait jm L pick ch during ctx1 s3 = Done (res, s')"
proof -
  from assms obtain ctx0 s1 p1 err where
    r: "Send_racing jm L ctx jm payload a b c during107 before108 s = Done (ctx0, s1, p1, err)"
    by (auto simp: SendAndWait_racing_def split: outcome.splits)
  show ?thesis
  proof (cases err)
    case (Some e)
    with assms r failed show ?thesis by (simp add: SendAndWait_racing_def)
  next
    case None
    with assms r obtain ctx1 s2 where ev: "run_events jm L before ctx0 s1 = Done (ctx1, s2)"
      by (auto simp: SendAndWait_racing_def split: outcome.splits)
    obtain ch s3 where reg: "register_slot s2 = (ch, s3)"
      by (cases "register_slot s2") auto
    from assms r None ev reg have "wait jm L pick ch during ctx1 s3 = Done (res, s')" "p1 = payload'"
      by (auto simp: SendAndWait_racing_def split: outcome.splits)
    with r None ev reg sent show ?thesis by simp
  qed
qed







text \<open>
  C6. The claim: the ids that the calls of \<open>Send\<close> and \<open>SendAndWait\<close> assign, one call
  after the other, are strictly increasing and none comes twice. The code: line 107
  reads and writes the counter and line 108 reads it again, with no lock, while the
  receive loop calls \<open>Send\<close> for its PONG (the source notes at line 105 that this is not
  safe). With one caller: the caller's \<open>Send\<close> reads 0; the loop answers a PING, its PONG
  gets id 1; the caller writes 0 + 1 and its GET_STATUS gets id 1 too. And the loop's
  late write makes the caller repeat an id of its own: the loop reads 0, the caller
  sends with ids 1 and 2, the loop writes 1 and its PONG gets id 1, and the caller's
  next call gets id 2 again. Where no call comes into another the ids are 1, 2, 3 and so
  on (\<open>ids_without_overlap\<close>, below).
\<close>

theorem Send_issues_id_twice:
  "map_option (RequestId \<circ> fst \<circ> snd \<circ> snd) (returned (Send_racing toy_json_Marshal toy_libs background
        toy_json_Marshal GetStatusHeader ''sender-0'' ''receiver-0'' ''ns''
        [Inbound (frame_from_receiver ''PING'') no_headers] [] started))
     = Some 1
   \<and> map_option (RequestId \<circ> PongHeader \<circ> fst \<circ> snd) (returned (Send_racing toy_json_Marshal toy_libs background
        toy_json_Marshal GetStatusHeader ''sender-0'' ''receiver-0'' ''ns''
        [Inbound (frame_from_receiver ''PING'') no_headers] [] started))
     = Some 1
   \<and> ids_issued (exec_ops toy_json_Marshal toy_libs
      [DoStart (Inr open_socket),
       DoSend GetStatusHeader ''sender-0'' ''receiver-0'' ''ns''
         [Inbound (frame_from_receiver ''PING'') no_headers] []]
      (NewConnection False)) = [1, 1]
   \<and> ids_issued (exec_ops toy_json_Marshal toy_libs
      [DoStart (Inr open_socket),
       DoInbound (frame_from_receiver ''PING'') no_headers
         [OtherSend GetStatusHeader ''sender-0'' ''receiver-0'' ''ns'',
          OtherSend LaunchHeader ''sender-0'' ''receiver-0'' ''ns''] [],
       DoSend GetStatusHeader ''sender-0'' ''receiver-0'' ''ns'' [] []]
      (NewConnection False)) = [1, 2, 1, 2]"
  by code_simp



subsection \<open>Calls that do not overlap\<close>

text \<open>Where every call of \<open>Send\<close> runs from line 107 to line 108 with nobody in between, the
  ids handed out are those of a counter: 1, 2, 3 and so on, as long as it does not
  overflow.\<close>

lemma go_int_succ: "go_int (go_int x + 1) = go_int (x + 1)"
proof -
  have "(go_int x + 1 + 2 ^ 63) mod 2 ^ 64 = ((x + 2 ^ 63) mod 2 ^ 64 + 1) mod 2 ^ 64"
    by (simp add: go_int_def add.commute)
  also have "\<dots> = (x + 2 ^ 63 + 1) mod 2 ^ 64"
    by (simp add: mod_add_left_eq)
  finally show ?thesis
    by (simp add: go_int_def add.commute add.left_commute)
qed

lemma ids_upto_Suc: "ids_upto (Suc n) = ids_upto n @ [go_int (int n + 1)]"
  by (simp add: ids_upto_def add.commute)

lemma ids_upto_small:
  assumes "int n \<le> max_int"
  shows "ids_upto n = map int [1..<Suc n]"
  unfolding ids_upto_def
proof (rule map_cong [OF refl])
  fix i assume "i \<in> set [1..<Suc n]"
  then have "int i \<le> max_int" using assms by auto
  then show "go_int (int i) = int i"
    by (intro go_int_id) auto
qed

lemma sorted_ints: "sorted_wrt (<) (map int [1..<Suc n])"
  by (simp add: sorted_wrt_map sorted_wrt_upt del: upt_Suc)

lemma counter_ok_NewConnection: "counter_ok (NewConnection dbg)"
  by (simp add: counter_ok_def NewConnection_def ids_upto_def go_int_def)

lemma counter_ok_log [simp]: "counter_ok (log m s) = counter_ok s"
  by (simp add: counter_ok_def)

lemma Send_counter_ok:
  assumes "counter_ok s" and "Send jm L payload a b c s = Done (s', payload', err)"
  shows "counter_ok s'" and "length (issued s) < length (issued s')"
proof -
  note fr = Send_unchanged [OF assms(2)]
  from assms(1) have r: "requestID s = go_int (int (length (issued s)))"
    and i: "issued s = ids_upto (length (issued s))"
    and d: "dom (resultChanMap s) \<subseteq> set (issued s)"
    by (simp_all add: counter_ok_def)
  have next_id: "go_int (requestID s + 1) = go_int (int (length (issued s)) + 1)"
    by (subst r) (rule go_int_succ)
  have "issued s' = ids_upto (Suc (length (issued s)))"
    using fr(8) i next_id by (simp add: ids_upto_Suc)
  moreover have "requestID s' = go_int (int (Suc (length (issued s))))"
    using fr(7) next_id by (simp add: add.commute)
  moreover have "length (issued s') = Suc (length (issued s))"
    using fr(8) by simp
  moreover have "dom (resultChanMap s') \<subseteq> set (issued s')"
    using fr(1,8) d by auto
  ultimately show "counter_ok s'" and "length (issued s) < length (issued s')"
    by (simp_all add: counter_ok_def)
qed

lemma counter_ok_updates [simp]:
  "counter_ok (s\<lparr>PongHeader := p\<rparr>) = counter_ok s"
  "counter_ok (s\<lparr>chans := c\<rparr>) = counter_ok s"
  "counter_ok (s\<lparr>conn := k\<rparr>) = counter_ok s"
  "counter_ok (s\<lparr>connected := b\<rparr>) = counter_ok s"
  "counter_ok (s\<lparr>debug := b\<rparr>) = counter_ok s"
  "counter_ok (s\<lparr>next_chan := n\<rparr>) = counter_ok s"
  by (simp_all add: counter_ok_def)

lemma issued_log_length [simp]: "length (issued (log m s)) = length (issued s)"
  by simp

lemma chan_send_counter_ok:
  "chan_send ch message s = Done s' \<Longrightarrow> counter_ok s' = counter_ok s \<and> issued s' = issued s"
  by (auto simp: chan_send_def split: if_splits)

lemma handleMessage_counter_ok:
  assumes ok: "counter_ok s" and h: "handleMessage L message headers s = Done s'"
  shows "counter_ok s' \<and> length (issued s) \<le> length (issued s')"
proof (cases "PayloadUtf8 message")
  case None
  with h show ?thesis by (simp add: handleMessage_def)
next
  case (Some js)
  show ?thesis
  proof (cases "jsonparser_GetString L js ''type''")
    case (Inl err)
    with h Some ok show ?thesis by (auto simp: handleMessage_def)
  next
    case (Inr messageType)
    show ?thesis
    proof (cases "messageType = ''PING''")
      case True
      with h Some Inr obtain src dst ns where f: "SourceId message = Some src"
        "DestinationId message = Some dst" "Namespace message = Some ns"
        by (auto simp: handleMessage_def split: option.splits)
      with h Some Inr True obtain s1 pong err where
        snd: "Send (json_Marshal_PayloadHeader L) L (PongHeader s) src dst ns s = Done (s1, pong, err)"
        and s': "s' = (case err of None \<Rightarrow> s1\<lparr>PongHeader := pong\<rparr>
                      | Some e \<Rightarrow> log ''unable to respond to PING: %v'' (s1\<lparr>PongHeader := pong\<rparr>))"
        by (auto simp: handleMessage_def Let_def split: outcome.splits)
      from Send_counter_ok [OF ok snd] s' show ?thesis
        by (cases err) auto
    next
      case False
      obtain r err where g: "jsonparser_GetInt L js ''requestId'' = (r, err)"
        by (cases "jsonparser_GetInt L js ''requestId''") auto
      define s1 where "s1 = (case err of None \<Rightarrow> s
          | Some e \<Rightarrow> log ''unable to find requestId in proto payload %s: %v'' s)"
      have s1: "counter_ok s1" "issued s1 = issued s"
        using ok by (simp_all add: s1_def split: option.splits)
      from h Some Inr False g have "(case resultChanMap s1 (go_int r) of
          Some resultChan \<Rightarrow> chan_send resultChan message s1 | None \<Rightarrow> Done s1) = Done s'"
        unfolding s1_def by (simp add: handleMessage_def Let_def)
      with s1 show ?thesis
        by (auto split: option.splits dest: chan_send_counter_ok)
    qed
  qed
qed

lemma run_event_counter_ok:
  assumes "counter_ok s" and "run_event jm L ev ctx s = Done (ctx', s')"
  shows "counter_ok s' \<and> length (issued s) \<le> length (issued s')"
proof (cases ev)
  case (Inbound message headers)
  with assms show ?thesis
    by (auto split: outcome.splits dest: handleMessage_counter_ok)
next
  case Cancel
  with assms show ?thesis by auto
next
  case (OtherSend payload a b c)
  with assms obtain payload' err where "Send jm L payload a b c s = Done (s', payload', err)"
    by (auto split: outcome.splits)
  from Send_counter_ok [OF assms(1) this] show ?thesis by simp
qed

lemma run_events_counter_ok:
  "counter_ok s \<Longrightarrow> run_events jm L evs ctx s = Done (ctx', s') \<Longrightarrow>
   counter_ok s' \<and> length (issued s) \<le> length (issued s')"
proof (induction evs arbitrary: ctx s)
  case Nil
  then show ?case by simp
next
  case (Cons ev evs)
  from Cons.prems(2) obtain ctx1 s1 where e: "run_event jm L ev ctx s = Done (ctx1, s1)"
    and r: "run_events jm L evs ctx1 s1 = Done (ctx', s')"
    by (auto split: outcome.splits)
  from run_event_counter_ok [OF Cons.prems(1) e] Cons.IH [OF _ r] show ?case
    by auto
qed

lemma register_slot_counter_ok:
  assumes "counter_ok s" and "issued s \<noteq> []"
  shows "counter_ok (snd (register_slot s))" and "issued (snd (register_slot s)) = issued s"
proof -
  from assms(1) have r: "requestID s = go_int (int (length (issued s)))"
    and i: "issued s = ids_upto (length (issued s))"
    by (simp_all add: counter_ok_def)
  from assms(2) obtain n where n: "length (issued s) = Suc n"
    by (cases "issued s") auto
  have "requestID s \<in> set (ids_upto (Suc n))"
    using r n by (simp add: ids_upto_Suc add.commute)
  with i n have "requestID s \<in> set (issued s)" by simp
  with assms(1) show "counter_ok (snd (register_slot s))"
    by (auto simp: register_slot_def Let_def counter_ok_def)
  show "issued (snd (register_slot s)) = issued s"
    by (simp add: register_slot_def Let_def)
qed

lemma deferred_delete_counter_ok:
  "counter_ok s \<Longrightarrow> counter_ok (deferred_delete s) \<and> issued (deferred_delete s) = issued s"
  by (auto simp: deferred_delete_def counter_ok_def)

lemma select_counter_ok:
  "select pick ch ctx s = Some (res, s') \<Longrightarrow> counter_ok s' = counter_ok s \<and> issued s' = issued s"
  by (auto simp: select_def split: list.splits if_splits)

lemma wait_counter_ok:
  "counter_ok s \<Longrightarrow> wait jm L pick ch evs ctx s = Done (res, s') \<Longrightarrow>
   counter_ok s' \<and> length (issued s) \<le> length (issued s')"
proof (induction evs arbitrary: ctx s)
  case Nil
  then show ?case
    by (auto split: option.splits dest!: select_counter_ok simp: deferred_delete_counter_ok)
next
  case (Cons ev evs)
  show ?case
  proof (cases "select pick ch ctx s")
    case (Some a)
    with Cons.prems show ?thesis
      by (cases a) (auto dest!: select_counter_ok simp: deferred_delete_counter_ok)
  next
    case None
    with Cons.prems(2) obtain ctx1 s1 where e: "run_event jm L ev ctx s = Done (ctx1, s1)"
      and w: "wait jm L pick ch evs ctx1 s1 = Done (res, s')"
      by (auto split: outcome.splits)
    from run_event_counter_ok [OF Cons.prems(1) e] Cons.IH [OF _ w] show ?thesis
      by auto
  qed
qed

lemma SendAndWait_counter_ok:
  assumes ok: "counter_ok s"
    and sw: "SendAndWait jm L ctx payload a b c before during pick s = Done (res, payload', s')"
  shows "counter_ok s' \<and> length (issued s) \<le> length (issued s')"
proof -
  from sw obtain s1 p1 err where snd: "Send jm L payload a b c s = Done (s1, p1, err)"
    by (auto simp: SendAndWait_def split: outcome.splits)
  note s1 = Send_counter_ok [OF ok snd]
  show ?thesis
  proof (cases err)
    case (Some e)
    with sw snd s1 show ?thesis by (simp add: SendAndWait_def)
  next
    case None
    with sw snd obtain ctx1 s2 where ev: "run_events jm L before ctx s1 = Done (ctx1, s2)"
      by (auto simp: SendAndWait_def split: outcome.splits)
    note s2 = run_events_counter_ok [OF s1(1) ev]
    with s1(2) have ne: "issued s2 \<noteq> []" by auto
    obtain ch s3 where reg: "register_slot s2 = (ch, s3)"
      by (cases "register_slot s2") auto
    with register_slot_counter_ok [OF _ ne] s2 have s3: "counter_ok s3" "issued s3 = issued s2"
      by auto
    from sw snd None ev reg have "wait jm L pick ch during ctx1 s3 = Done (res, s')"
      by (auto simp: SendAndWait_def split: outcome.splits)
    from wait_counter_ok [OF s3(1) this] s3(2) s2 s1(2) show ?thesis by auto
  qed
qed

lemma exec_op_counter_ok:
  assumes "counter_ok s" and "no_overlap x" and "exec_op jm L x s = Done s'"
  shows "counter_ok s' \<and> length (issued s) \<le> length (issued s')"
proof (cases x)
  case (DoStart dial)
  with assms show ?thesis
    by (auto simp: Start_def connect_def split: sum.splits if_splits)
next
  case (DoSetDebug dbg)
  with assms show ?thesis by (auto simp: SetDebug_def)
next
  case (DoSend payload a b c during107 before108)
  with assms obtain payload' err where "Send jm L payload a b c s = Done (s', payload', err)"
    by (auto simp: Send_racing_alone split: outcome.splits)
  from Send_counter_ok [OF assms(1) this] show ?thesis by simp
next
  case (DoSendAndWait ctx payload a b c during107 before108 before during pick)
  with assms obtain res payload' where
    "SendAndWait jm L ctx payload a b c before during pick s = Done (res, payload', s')"
    by (auto simp: SendAndWait_racing_alone split: outcome.splits)
  from SendAndWait_counter_ok [OF assms(1) this] show ?thesis .
next
  case (DoInbound message headers during107 before108)
  with assms show ?thesis
    by (auto simp: handleMessage_racing_alone dest: handleMessage_counter_ok)
qed

lemma exec_ops_counter_ok:
  "counter_ok s \<Longrightarrow> \<forall>x \<in> set xs. no_overlap x \<Longrightarrow> exec_ops jm L xs s = Done s' \<Longrightarrow> counter_ok s'"
proof (induction xs arbitrary: s)
  case Nil
  then show ?case by simp
next
  case (Cons x xs)
  from Cons.prems(3) obtain s1 where e: "exec_op jm L x s = Done s1"
    and r: "exec_ops jm L xs s1 = Done s'"
    by (auto split: outcome.splits)
  from exec_op_counter_ok [OF Cons.prems(1) _ e] Cons.prems(2) have "counter_ok s1" by simp
  from Cons.IH [OF this _ r] Cons.prems(2) show ?case by simp
qed

lemma ids_without_overlap:
  assumes "\<forall>x \<in> set ops. no_overlap x"
    and "int (length (ids_issued (exec_ops jm L ops (NewConnection dbg)))) \<le> max_int"
  shows "ids_issued (exec_ops jm L ops (NewConnection dbg))
       = map int [1..<Suc (length (ids_issued (exec_ops jm L ops (NewConnection dbg))))]
    \<and> sorted_wrt (<) (ids_issued (exec_ops jm L ops (NewConnection dbg)))
    \<and> distinct (ids_issued (exec_ops jm L ops (NewConnection dbg)))"
proof (cases "exec_ops jm L ops (NewConnection dbg)")
  case (Done s)
  from exec_ops_counter_ok [OF counter_ok_NewConnection assms(1) Done]
  have "issued s = ids_upto (length (issued s))"
    by (simp add: counter_ok_def)
  moreover from assms(2) Done have "int (length (issued s)) \<le> max_int"
    by (simp add: ids_issued_def)
  ultimately have eq: "issued s = map int [1..<Suc (length (issued s))]"
    by (simp add: ids_upto_small)
  have "sorted_wrt (<) (map int [1..<Suc (length (issued s))])"
    by (rule sorted_ints)
  with eq have "sorted_wrt (<) (issued s)" by simp
  moreover have "distinct (map int [1..<Suc (length (issued s))])"
    by (simp add: distinct_map del: upt_Suc)
  with eq have "distinct (issued s)" by simp
  ultimately show ?thesis
    using eq Done by (simp add: ids_issued_def)
qed (simp_all add: ids_issued_def)

lemma ids_without_overlap_example:
  "ids_issued (exec_ops toy_json_Marshal toy_libs
      [DoStart (Inr open_socket),
       DoSend GetStatusHeader ''sender-0'' ''receiver-0'' ''ns'' [] [],
       DoInbound (frame_from_receiver ''PING'') no_headers [] [],
       DoSendAndWait with_deadline LaunchHeader ''sender-0'' ''receiver-0'' ''ns'' [] []
         [] [Inbound (frame_from_receiver ''RECEIVER_STATUS#iii'') no_headers] False,
       DoSend GetStatusHeader ''sender-0'' ''receiver-0'' ''ns'' [] []]
      (NewConnection False)) = [1, 2, 3, 4]"
  by code_simp

subsection \<open>The table along a run\<close>

lemma Send_racing_table:
  assumes "Send_racing jmo L ctx jm payload a b c during107 before108 s = Done (ctx', s', payload', err)"
  shows "resultChanMap s' = resultChanMap s \<and> next_chan s' = next_chan s"
  using assms
proof (cases rule: Send_racing_steps)
  case (1 ctx1 sa sc)
  from run_events_table [OF 1(1)] run_events_table [OF 1(2)] Send_rest_unchanged [OF 1(3)]
  show ?thesis by simp
qed

lemma handleMessage_racing_table:
  assumes "handleMessage_racing jmo L message headers during107 before108 s = Done s'"
  shows "resultChanMap s' = resultChanMap s \<and> next_chan s' = next_chan s"
  using assms
proof (cases rule: handleMessage_racing_Done_cases)
  case (ping src dst ns ctx s1 pong err)
  from Send_racing_table [OF ping(1)] ping(2) show ?thesis
    by (cases err) simp_all
next
  case no_ping
  then show ?thesis by (rule handleMessage_table)
qed

lemma SendAndWait_racing_table_wf:
  assumes wf: "table_wf s"
    and sw: "SendAndWait_racing jm L ctx payload a b c during107 before108 before during pick s
      = Done (res, payload', s')"
  shows "table_wf s'"
  using sw
proof (cases rule: SendAndWait_racing_steps)
  case (failed ctx0 err)
  from Send_racing_table [OF this] wf show ?thesis by (simp add: table_wf_def)
next
  case (sent ctx0 s1 ctx1 s2 ch s3)
  from Send_racing_table [OF sent(1)] run_events_table [OF sent(2)] wf have "table_wf s2"
    by (simp add: table_wf_def)
  with sent(3) have "table_wf s3"
    by (auto simp: register_slot_def Let_def table_wf_def less_Suc_eq split: if_splits)
  with wait_table [OF sent(4)] show ?thesis
    by (auto simp: table_wf_def split: if_splits)
qed

lemma exec_op_table_wf:
  assumes "table_wf s" and "exec_op jm L x s = Done s'"
  shows "table_wf s'"
proof (cases x)
  case (DoStart dial)
  with assms show ?thesis
    by (auto simp: Start_def connect_def table_wf_def split: sum.splits if_splits)
next
  case (DoSetDebug dbg)
  with assms show ?thesis by (auto simp: SetDebug_def table_wf_def)
next
  case (DoSend payload a b c during107 before108)
  with assms obtain ctx payload' err where
    "Send_racing jm L background jm payload a b c during107 before108 s = Done (ctx, s', payload', err)"
    by (auto split: outcome.splits)
  from Send_racing_table [OF this] assms(1) show ?thesis by (simp add: table_wf_def)
next
  case (DoSendAndWait ctx payload a b c during107 before108 before during pick)
  with assms obtain res payload' where
    "SendAndWait_racing jm L ctx payload a b c during107 before108 before during pick s
       = Done (res, payload', s')"
    by (auto split: outcome.splits)
  from SendAndWait_racing_table_wf [OF assms(1) this] show ?thesis .
next
  case (DoInbound message headers during107 before108)
  with assms handleMessage_racing_table [of jm L message headers during107 before108 s s']
  show ?thesis by (simp add: table_wf_def)
qed

lemma exec_ops_table_wf:
  "table_wf s \<Longrightarrow> exec_ops jm L xs s = Done s' \<Longrightarrow> table_wf s'"
proof (induction xs arbitrary: s)
  case (Cons x xs)
  from Cons.prems(2) obtain s1 where e: "exec_op jm L x s = Done s1"
    and r: "exec_ops jm L xs s1 = Done s'"
    by (auto split: outcome.splits)
  from Cons.IH [OF exec_op_table_wf [OF Cons.prems(1) e] r] show ?case .
qed simp

end
